theory Spec2Isabelle
  imports Complex_Main "HOL-Library.Sublist"
begin

section \<open>Errors\<close>

text \<open>
  The exceptions that the functions of \<^verbatim>\<open>train_ensemble.py\<close> can raise by themselves.
  Nothing in the script catches an exception, so a raise ends the run.
\<close>

datatype error =
    UnboundLocalError string
  | KeyError string
  | ValueError
  | ZeroDivisionError

section \<open>The model selector\<close>

text \<open>
  A network is kept as far as \<^verbatim>\<open>select_model\<close> touches it: its architecture and the
  linear layers it holds as attributes. \<^verbatim>\<open>nn.Linear(i, o)\<close> is \<open>Linear i o\<close>; an attribute
  assignment \<^verbatim>\<open>m.a = l\<close> is a map update.
\<close>

datatype module = Linear (in_features: nat) (out_features: nat)

datatype arch = ResNet18 | DenseNet161 | ShuffleNetV2_x1_0 | EfficientNet_b0

record net =
  arch :: arch
  attrs :: "string \<rightharpoonup> module"

text \<open>
  What the libraries build (torchvision 0.10 and efficientnet_pytorch; not code of this
  repository). Each architecture ends its forward pass in one named linear layer:
  \<^verbatim>\<open>fc\<close> for ResNet and ShuffleNetV2, \<^verbatim>\<open>classifier\<close> for DenseNet, \<^verbatim>\<open>_fc\<close> for EfficientNet.
  The pretrained ImageNet networks have 1000 outputs; \<^verbatim>\<open>EfficientNet.from_pretrained\<close>
  takes the number of classes and builds its last layer with it.
\<close>

fun head_attr :: "arch \<Rightarrow> string" where
  "head_attr ResNet18 = ''fc''"
| "head_attr DenseNet161 = ''classifier''"
| "head_attr ShuffleNetV2_x1_0 = ''fc''"
| "head_attr EfficientNet_b0 = ''_fc''"

definition resnet18_pretrained :: net where
  "resnet18_pretrained = \<lparr>arch = ResNet18, attrs = [''fc'' \<mapsto> Linear 512 1000]\<rparr>"

definition densenet161_pretrained :: net where
  "densenet161_pretrained = \<lparr>arch = DenseNet161, attrs = [''classifier'' \<mapsto> Linear 2208 1000]\<rparr>"

definition shufflenet_pretrained :: net where
  "shufflenet_pretrained = \<lparr>arch = ShuffleNetV2_x1_0, attrs = [''fc'' \<mapsto> Linear 1024 1000]\<rparr>"

definition efficientnet_from_pretrained :: "nat \<Rightarrow> net" where
  "efficientnet_from_pretrained num_classes =
     \<lparr>arch = EfficientNet_b0, attrs = [''_fc'' \<mapsto> Linear 1280 num_classes]\<rparr>"

definition setattr :: "net \<Rightarrow> string \<Rightarrow> module \<Rightarrow> net" where
  "setattr m a l = m\<lparr>attrs := (attrs m)(a \<mapsto> l)\<rparr>"

text \<open>The number of logits the forward pass emits: the width of the layer it ends in.\<close>

definition n_logits :: "net \<Rightarrow> nat option" where
  "n_logits m = map_option out_features (attrs m (head_attr (arch m)))"

text \<open>
  \<^verbatim>\<open>select_model\<close> (lines 104-116). The chain has no \<^verbatim>\<open>else\<close>: when no branch is taken the
  local \<^verbatim>\<open>model_\<close> was never assigned, and \<^verbatim>\<open>return model_\<close> raises \<^verbatim>\<open>UnboundLocalError\<close>.
\<close>

definition select_model :: "string \<Rightarrow> nat \<Rightarrow> error + net" where
  "select_model model num_classes =
     (if model = ''resnet18'' then
        Inr (setattr resnet18_pretrained ''classifier'' (Linear 1024 num_classes))
      else if model = ''densenet161'' then
        Inr (setattr densenet161_pretrained ''classifier'' (Linear 2208 num_classes))
      else if model = ''shufflenet'' then
        Inr (setattr shufflenet_pretrained ''fc'' (Linear 1024 num_classes))
      else if model = ''efficientnet'' then
        Inr (efficientnet_from_pretrained num_classes)
      else Inl (UnboundLocalError ''model_''))"

text \<open>The identifiers the chain tests for.\<close>

definition recognized :: "string set" where
  "recognized = {''resnet18'', ''densenet161'', ''shufflenet'', ''efficientnet''}"

text \<open>The command line (lines 353-371) as the settings object \<^verbatim>\<open>args\<close>.\<close>

record args =
  seed :: int
  epochs :: int
  dataset :: string
  batch_size :: int
  valid_batch_size :: int
  optimizer :: string
  lr :: real
  val_ratio :: real
  criterion :: string
  lr_decay_step :: int
  log_interval :: int
  name :: string
  data_dir :: string
  model_dir :: string

text \<open>
  Line 213 of \<^verbatim>\<open>train\<close>: the network of a fold. \<^verbatim>\<open>args\<close> and the dataset's
  \<^verbatim>\<open>num_classes\<close> (line 189) are in scope there and neither is used.
\<close>

definition fold_model :: "args \<Rightarrow> nat \<Rightarrow> error + net" where
  "fold_model args num_classes = select_model ''efficientnet'' 18"


section \<open>Decimal numerals\<close>

text \<open>
  Python's \<^verbatim>\<open>str(n)\<close> and \<^verbatim>\<open>int(s)\<close> on non-negative integers and ASCII digits, and the
  class \<^verbatim>\<open>\d\<close> of the regular expressions restricted to ASCII. \<open>digit_char\<close> is applied to
  numbers below 10 only.
\<close>

definition digit_char :: "nat \<Rightarrow> char" where
  "digit_char d = ''0123456789'' ! d"

definition is_digit :: "char \<Rightarrow> bool" where
  "is_digit c = (c \<in> set ''0123456789'')"

definition digit_val :: "char \<Rightarrow> nat" where
  "digit_val c = of_char c - 48"

fun str_nat :: "nat \<Rightarrow> string" where
  "str_nat n = (if n < 10 then [digit_char n] else str_nat (n div 10) @ [digit_char (n mod 10)])"

declare str_nat.simps [simp del]

definition int_of_digits :: "string \<Rightarrow> nat" where
  "int_of_digits ds = foldl (\<lambda>a c. 10 * a + digit_val c) 0 ds"

section \<open>Floating-point values\<close>

text \<open>
  A Python float (a double) or a numpy \<^verbatim>\<open>float32\<close>: a finite value, an infinity or a NaN.
  The finite values are kept as the rational numbers they are; signed zeros are not
  told apart.
\<close>

datatype pyfloat = Fin rat | PInf | NInf | NaN

text \<open>
  The exponent \<open>e\<close> with \<open>2^e \<le> |x| < 2^(e+1)\<close> of a number that is not zero, found by
  halving or doubling. The bound of 1100 steps is beyond the exponents of the doubles
  (from -1074 to 1023).
\<close>

fun halvings :: "nat \<Rightarrow> rat \<Rightarrow> nat" where
  "halvings n y = (if n = 0 \<or> y < 2 then 0 else Suc (halvings (n - 1) (y / 2)))"

fun doublings :: "nat \<Rightarrow> rat \<Rightarrow> nat" where
  "doublings n y = (if n = 0 \<or> 1 \<le> y then 0 else Suc (doublings (n - 1) (2 * y)))"

declare halvings.simps [simp del] doublings.simps [simp del]

definition ilog2 :: "rat \<Rightarrow> int" where
  "ilog2 x =
     (if 1 \<le> \<bar>x\<bar> then int (halvings 1100 \<bar>x\<bar>) else - int (doublings 1100 \<bar>x\<bar>))"

text \<open>Rounding to the nearest integer, a tie to the even one.\<close>

definition round_even :: "rat \<Rightarrow> int" where
  "round_even y =
     (let f = \<lfloor>y\<rfloor>; r = y - of_int f
      in if r < 1/2 then f else if 1/2 < r then f + 1 else if even f then f else f + 1)"

text \<open>
  Rounding to single precision: 24 significant bits, and below \<open>2^(-126)\<close> the fixed
  spacing \<open>2^(-149)\<close> of the subnormal numbers.
\<close>

definition round_single :: "rat \<Rightarrow> rat" where
  "round_single x =
     (if x = 0 then 0
      else let q = 2 powi (max (ilog2 x) (- 126) - 23)
           in of_int (round_even (x / q)) * q)"

text \<open>
  The conversion of a double to \<^verbatim>\<open>np.float32\<close>: a finite value is rounded to single
  precision, and to an infinity when the rounded value is beyond the largest single.
\<close>

fun float32 :: "pyfloat \<Rightarrow> pyfloat" where
  "float32 (Fin x) =
     (let r = round_single x
      in if 2 ^ 128 \<le> \<bar>r\<bar> then (if x < 0 then NInf else PInf) else Fin r)"
| "float32 PInf = PInf"
| "float32 NInf = NInf"
| "float32 NaN = NaN"

text \<open>The doubles nearest to 1/3 and to 2/3.\<close>

definition third :: rat where
  "third = 6004799503160661 / 18014398509481984"

definition two_thirds :: rat where
  "two_thirds = 6004799503160661 / 9007199254740992"

section \<open>The error-analysis writer\<close>

text \<open>
  \<^verbatim>\<open>classification_report(..., output_dict=True)\<close> is a dictionary from the class label,
  printed as a string, to a dictionary of that class's metrics. The metric values are
  floating-point numbers that the writer only copies; their type is left open.
\<close>

type_synonym 'v report = "string \<rightharpoonup> (string \<rightharpoonup> 'v)"

text \<open>
  A pandas data frame as far as the writer uses it: the column names, the row labels in
  order, the conversion to the frame's \<^verbatim>\<open>dtype\<close> that a value undergoes when it is stored,
  and the row stored under each label (\<open>None\<close> is the cell NaN of a frame built without
  data). \<^verbatim>\<open>df.loc[l, :] = vs\<close> stores a row under the label \<open>l\<close>, appending the label when
  the frame does not have it. \<^verbatim>\<open>to_csv(index=False)\<close> writes the column names and then the
  rows in the order of the labels, without the labels.

  The writer builds its frame with \<^verbatim>\<open>dtype=np.float32\<close>: a double stored in it is
  converted to single precision, which is \<open>float32\<close> above. The definitions take the
  conversion as their first argument \<open>np_float32\<close>, so that what is proved of them
  holds of every conversion, \<open>float32\<close> among them.
\<close>

record 'v dataframe =
  columns :: "string list"
  index :: "nat list"
  dtype :: "'v \<Rightarrow> 'v"
  row_at :: "nat \<rightharpoonup> 'v option list"

datatype 'v csv = Csv (header: "string list") (rows: "'v option list list")

text \<open>What a file of the output directory holds.\<close>

datatype ('w, 'v) artifact =
    Weights 'w
  | Table "'v csv"
  | PredTable "(nat \<times> nat) list"

type_synonym ('w, 'v) files = "string \<rightharpoonup> ('w, 'v) artifact"

definition empty_frame :: "string list \<Rightarrow> nat list \<Rightarrow> ('v \<Rightarrow> 'v) \<Rightarrow> 'v dataframe" where
  "empty_frame cols idx dt =
     \<lparr>columns = cols, index = idx, dtype = dt,
      row_at = (\<lambda>l. if l \<in> set idx then Some (map (\<lambda>_. None) cols) else None)\<rparr>"

definition loc_set_row :: "'v dataframe \<Rightarrow> nat \<Rightarrow> 'v list \<Rightarrow> 'v dataframe" where
  "loc_set_row df l vs =
     df\<lparr>index := (if l \<in> set (index df) then index df else index df @ [l]),
        row_at := (row_at df)(l \<mapsto> map (\<lambda>v. Some (dtype df v)) vs)\<rparr>"

definition to_csv :: "'v dataframe \<Rightarrow> 'v csv" where
  "to_csv df =
     Csv (columns df)
       (map (\<lambda>l. case row_at df l of Some r \<Rightarrow> r | None \<Rightarrow> map (\<lambda>_. None) (columns df))
          (index df))"

text \<open>A dictionary lookup \<^verbatim>\<open>d[k]\<close>, which raises \<^verbatim>\<open>KeyError\<close> on a missing key.\<close>

definition getitem :: "(string \<rightharpoonup> 'a) \<Rightarrow> string \<Rightarrow> error + 'a" where
  "getitem d k = (case d k of None \<Rightarrow> Inl (KeyError k) | Some v \<Rightarrow> Inr v)"

text \<open>
  The right-hand side of line 51, evaluated left to right:
  \<^verbatim>\<open>report[k]['precision'], report[k]['recall'], report[k]['f1-score']\<close>.
\<close>

definition report_row :: "'v report \<Rightarrow> string \<Rightarrow> error + 'v list" where
  "report_row report k =
     (case getitem report k of Inl e \<Rightarrow> Inl e | Inr e1 \<Rightarrow>
      case getitem e1 ''precision'' of Inl e \<Rightarrow> Inl e | Inr p \<Rightarrow>
      case getitem report k of Inl e \<Rightarrow> Inl e | Inr e2 \<Rightarrow>
      case getitem e2 ''recall'' of Inl e \<Rightarrow> Inl e | Inr r \<Rightarrow>
      case getitem report k of Inl e \<Rightarrow> Inl e | Inr e3 \<Rightarrow>
      case getitem e3 ''f1-score'' of Inl e \<Rightarrow> Inl e | Inr f \<Rightarrow>
      Inr [p, r, f])"

text \<open>The loop of lines 49-51 over the labels of the frame.\<close>

fun fill_rows :: "'v report \<Rightarrow> nat list \<Rightarrow> 'v dataframe \<Rightarrow> error + 'v dataframe" where
  "fill_rows report [] df = Inr df"
| "fill_rows report (idx # idxs) df =
     (case report_row report (str_nat idx) of
        Inl e \<Rightarrow> Inl e
      | Inr row \<Rightarrow> fill_rows report idxs (loc_set_row df idx row))"

text \<open>\<^verbatim>\<open>save_f1_result\<close> (lines 43-56), on the files of the output directory.\<close>

definition save_f1_result ::
  "('v \<Rightarrow> 'v) \<Rightarrow> nat \<Rightarrow> 'v report \<Rightarrow> string \<Rightarrow> bool \<Rightarrow> ('w, 'v) files
     \<Rightarrow> error + ('w, 'v) files" where
  "save_f1_result np_float32 epoch report dir_model save_best fs =
     (let df_f1_rslt = empty_frame [''precision'', ''recall'', ''f1''] [0..<18] np_float32 in
      case fill_rows report (index df_f1_rslt) df_f1_rslt of
        Inl e \<Rightarrow> Inl e
      | Inr df \<Rightarrow>
          if save_best then Inr (fs(dir_model @ ''/f1_result.csv'' \<mapsto> Table (to_csv df)))
          else Inr (fs(dir_model @ ''/f1_result_epoch_'' @ str_nat epoch @ ''.csv''
                        \<mapsto> Table (to_csv df))))"

text \<open>
  \<^verbatim>\<open>save_best_val_pred\<close> (lines 35-40). A frame built from two columns of different
  lengths raises \<^verbatim>\<open>ValueError\<close>.
\<close>

definition save_best_val_pred ::
  "nat list \<Rightarrow> nat list \<Rightarrow> string \<Rightarrow> ('w, 'v) files \<Rightarrow> error + ('w, 'v) files" where
  "save_best_val_pred y_true y_pred dir_model fs =
     (if length y_true \<noteq> length y_pred then Inl ValueError
      else Inr (fs(dir_model @ ''/pred_result.csv'' \<mapsto> PredTable (zip y_true y_pred))))"

text \<open>
  The cell of a report for class \<open>i\<close> and metric \<open>m\<close>, and what it is for a report to
  cover the classes 0 to 17 with the three metrics the writer reads.
\<close>

definition report_cell :: "'v report \<Rightarrow> nat \<Rightarrow> string \<Rightarrow> 'v option" where
  "report_cell report i m = (case report (str_nat i) of None \<Rightarrow> None | Some e \<Rightarrow> e m)"

definition report_covers :: "'v report \<Rightarrow> bool" where
  "report_covers report =
     list_all (\<lambda>i. report_cell report i ''precision'' \<noteq> None
                 \<and> report_cell report i ''recall'' \<noteq> None
                 \<and> report_cell report i ''f1-score'' \<noteq> None) [0..<18]"

text \<open>The row of the table for class \<open>i\<close>, and the table of a report.\<close>

definition report_line :: "('v \<Rightarrow> 'v) \<Rightarrow> 'v report \<Rightarrow> nat \<Rightarrow> 'v option list" where
  "report_line dt report i =
     map (\<lambda>m. map_option dt (report_cell report i m)) [''precision'', ''recall'', ''f1-score'']"

definition f1_table :: "('v \<Rightarrow> 'v) \<Rightarrow> 'v report \<Rightarrow> 'v csv" where
  "f1_table dt report =
     Csv [''precision'', ''recall'', ''f1''] (map (report_line dt report) [0..<18])"

text \<open>
  The report that \<^verbatim>\<open>classification_report\<close> gives for the classes \<open>cs\<close> found among the
  labels and the predictions, from the precision, recall, F1 and support of each class.
  (Its entries \<^verbatim>\<open>accuracy\<close>, \<^verbatim>\<open>macro avg\<close> and \<^verbatim>\<open>weighted avg\<close>, which the writer never
  reads, are left out.)
\<close>

definition class_entry :: "rat \<times> rat \<times> rat \<times> rat \<Rightarrow> (string \<rightharpoonup> pyfloat)" where
  "class_entry m =
     (case m of (p, r, f, s) \<Rightarrow>
        [''precision'' \<mapsto> Fin p, ''recall'' \<mapsto> Fin r, ''f1-score'' \<mapsto> Fin f,
         ''support'' \<mapsto> Fin s])"

definition report_of :: "nat list \<Rightarrow> (nat \<Rightarrow> rat \<times> rat \<times> rat \<times> rat) \<Rightarrow> pyfloat report" where
  "report_of cs metrics =
     (\<lambda>k. if k \<in> set (map str_nat cs) then Some (class_entry (metrics (int_of_digits k)))
          else None)"

text \<open>
  Validation labels paired with predictions, and the reports of them: every one of
  the 18 classes once and predicted as the next class; the classes 0 to 3 and 12 to 17
  right and the classes 4 to 11 predicted, two by two, as the classes 0 to 3; the
  classes 0 to 8 right and the classes 9 to 17 each predicted as the next of them;
  class 0 three times, twice of them predicted as class 1, with the other classes
  right; and the two labels 0 and 1, both predicted as class 0.
\<close>

definition pairs_wrong :: "(nat \<times> nat) list" where
  "pairs_wrong = map (\<lambda>c. (c, Suc c mod 18)) [0..<18]"

definition report_wrong :: "pyfloat report" where
  "report_wrong = report_of [0..<18] (\<lambda>c. (0, 0, 0, 1))"

definition pairs_skew :: "(nat \<times> nat) list" where
  "pairs_skew =
     map (\<lambda>c. (c, c)) [0..<4] @ map (\<lambda>c. (c, (c - 4) div 2)) [4..<12]
     @ map (\<lambda>c. (c, c)) [12..<18]"

definition report_skew :: "pyfloat report" where
  "report_skew =
     report_of [0..<18]
       (\<lambda>c. if c < 4 then (third, 1, 1/2, 1) else if c < 12 then (0, 0, 0, 1)
            else (1, 1, 1, 1))"

definition pairs_half :: "(nat \<times> nat) list" where
  "pairs_half = map (\<lambda>c. (c, c)) [0..<9] @ map (\<lambda>c. (c, 9 + (c - 8) mod 9)) [9..<18]"

definition report_half :: "pyfloat report" where
  "report_half = report_of [0..<18] (\<lambda>c. if c < 9 then (1, 1, 1, 1) else (0, 0, 0, 1))"

definition pairs_thirds :: "(nat \<times> nat) list" where
  "pairs_thirds = [(0, 0), (0, 1), (0, 1), (1, 1)] @ map (\<lambda>c. (c, c)) [2..<18]"

definition report_thirds :: "pyfloat report" where
  "report_thirds =
     report_of [0..<18]
       (\<lambda>c. if c = 0 then (1, third, 1/2, 3) else if c = 1 then (third, 1, 1/2, 1)
            else (1, 1, 1, 1))"

definition pairs_two :: "(nat \<times> nat) list" where
  "pairs_two = [(0, 0), (1, 0)]"

definition report_two :: "pyfloat report" where
  "report_two = report_of [0, 1] (\<lambda>c. if c = 0 then (1/2, 1, two_thirds, 1) else (0, 0, 0, 1))"

section \<open>Validation at the end of an epoch\<close>

text \<open>
  What the tensor computations of one epoch (training, lines 237-281, and the validation
  pass, lines 284-321) hand to the bookkeeping of lines 323-335: the weights
  \<^verbatim>\<open>model.state_dict()\<close>, the validation loss, accuracy and macro-F1, the validation labels
  paired with the predictions (both arrays are appended to batch by batch, lines 302-303),
  and the classification report of these labels. The loss, the accuracy and the F1 are
  taken as real numbers: the bookkeeping compares and copies them, and computes nothing.
\<close>

record ('w, 'v) epoch_outcome =
  state_dict :: 'w
  val_loss :: real
  val_acc :: real
  val_f1 :: real
  val_pairs :: "(nat \<times> nat) list"
  rslt_f1_by_class :: "'v report"

text \<open>\<^verbatim>\<open>best_val_loss\<close> starts as \<^verbatim>\<open>np.inf\<close> (line 232).\<close>

datatype loss = NpInf | Loss real

text \<open>The writes to the output directory, in the order they happen, with the epoch.\<close>

datatype event = SaveBest nat | SaveF1Result nat | SaveBestValPred nat | SaveLast nat

record ('w, 'v) fold_state =
  best_val_acc :: real
  best_val_loss :: loss
  best_f1 :: real
  files :: "('w, 'v) files"
  trace :: "event list"

text \<open>Lines 231-233, on the files the fold starts with.\<close>

definition fold_start :: "('w, 'v) files \<Rightarrow> ('w, 'v) fold_state" where
  "fold_start fs = \<lparr>best_val_acc = 0, best_val_loss = NpInf, best_f1 = 0, files = fs, trace = []\<rparr>"

text \<open>
  Lines 323-335. A raise ends the run; it is returned with the state that the lines
  before it have left.
\<close>

definition validate_epoch ::
  "('v \<Rightarrow> 'v) \<Rightarrow> string \<Rightarrow> nat \<Rightarrow> ('w, 'v) epoch_outcome \<Rightarrow> ('w, 'v) fold_state
     \<Rightarrow> error \<times> ('w, 'v) fold_state + ('w, 'v) fold_state" where
  "validate_epoch np_float32 save_dir epoch ep st =
     (if val_f1 ep > best_f1 st then
        let st1 = st\<lparr>files := (files st)(save_dir @ ''/best.pth'' \<mapsto> Weights (state_dict ep)),
                     trace := trace st @ [SaveBest epoch]\<rparr>;
            st2 = st1\<lparr>best_val_loss := Loss (val_loss ep), best_val_acc := val_acc ep,
                       best_f1 := val_f1 ep\<rparr>
        in case save_f1_result np_float32 epoch (rslt_f1_by_class ep) save_dir True (files st2) of
             Inl e \<Rightarrow> Inl (e, st2)
           | Inr fs3 \<Rightarrow>
              (case save_best_val_pred (map fst (val_pairs ep)) (map snd (val_pairs ep)) save_dir fs3 of
                 Inl e \<Rightarrow> Inl (e, st2\<lparr>files := fs3, trace := trace st2 @ [SaveF1Result epoch]\<rparr>)
               | Inr fs4 \<Rightarrow>
                   Inr (st2\<lparr>files := fs4(save_dir @ ''/last.pth'' \<mapsto> Weights (state_dict ep)),
                            trace := trace st2 @ [SaveF1Result epoch, SaveBestValPred epoch,
                                                  SaveLast epoch]\<rparr>))
      else
        Inr (st\<lparr>files := (files st)(save_dir @ ''/last.pth'' \<mapsto> Weights (state_dict ep)),
                trace := trace st @ [SaveLast epoch]\<rparr>))"

text \<open>The loop over the epochs (line 235), from epoch number \<open>epoch\<close> on.\<close>

fun run_epochs ::
  "('v \<Rightarrow> 'v) \<Rightarrow> string \<Rightarrow> nat \<Rightarrow> ('w, 'v) epoch_outcome list \<Rightarrow> ('w, 'v) fold_state
     \<Rightarrow> error \<times> ('w, 'v) fold_state + ('w, 'v) fold_state" where
  "run_epochs np_float32 save_dir epoch [] st = Inr st"
| "run_epochs np_float32 save_dir epoch (ep # eps) st =
     (case validate_epoch np_float32 save_dir epoch ep st of
        Inl e \<Rightarrow> Inl e
      | Inr st' \<Rightarrow> run_epochs np_float32 save_dir (Suc epoch) eps st')"

text \<open>The epochs of a fold, from the state of lines 231-233.\<close>

definition run_fold ::
  "('v \<Rightarrow> 'v) \<Rightarrow> string \<Rightarrow> ('w, 'v) files \<Rightarrow> ('w, 'v) epoch_outcome list
     \<Rightarrow> error \<times> ('w, 'v) fold_state + ('w, 'v) fold_state" where
  "run_fold np_float32 save_dir fs eps = run_epochs np_float32 save_dir 0 eps (fold_start fs)"

text \<open>
  The epochs of a fold whose validation F1 is above \<^verbatim>\<open>best_f1\<close> when they are validated:
  positive, and above the F1 of every earlier epoch.
\<close>

definition improves :: "('w, 'v) epoch_outcome list \<Rightarrow> nat \<Rightarrow> bool" where
  "improves eps k = (0 < val_f1 (eps ! k) \<and> (\<forall>j<k. val_f1 (eps ! j) < val_f1 (eps ! k)))"

text \<open>
  The epoch with the best F1 so far: the first one that reaches the largest F1 of the
  list, when that F1 is positive.
\<close>

definition best_epoch :: "('w, 'v) epoch_outcome list \<Rightarrow> nat \<Rightarrow> bool" where
  "best_epoch eps k =
     (k < length eps \<and> improves eps k \<and> (\<forall>j<length eps. val_f1 (eps ! j) \<le> val_f1 (eps ! k)))"

text \<open>
  The writes of epoch \<open>k\<close>, by whether it improves, and the writes of a whole fold.
\<close>

definition epoch_events :: "bool \<Rightarrow> nat \<Rightarrow> event list" where
  "epoch_events imp k =
     (if imp then [SaveBest k, SaveF1Result k, SaveBestValPred k] else []) @ [SaveLast k]"

definition fold_events :: "('w, 'v) epoch_outcome list \<Rightarrow> event list" where
  "fold_events eps = concat (map (\<lambda>k. epoch_events (improves eps k) k) [0..<length eps])"

text \<open>
  The three best values and the three best files of a state, and what they are when
  they come from one epoch outcome.
\<close>

definition best_values :: "('w, 'v) fold_state \<Rightarrow> real \<times> real \<times> loss" where
  "best_values st = (best_f1 st, best_val_acc st, best_val_loss st)"

definition best_files ::
  "string \<Rightarrow> ('w, 'v) files
     \<Rightarrow> ('w, 'v) artifact option \<times> ('w, 'v) artifact option \<times> ('w, 'v) artifact option" where
  "best_files save_dir fs =
     (fs (save_dir @ ''/best.pth''), fs (save_dir @ ''/f1_result.csv''),
      fs (save_dir @ ''/pred_result.csv''))"

definition values_of :: "('w, 'v) epoch_outcome \<Rightarrow> real \<times> real \<times> loss" where
  "values_of ep = (val_f1 ep, val_acc ep, Loss (val_loss ep))"

definition files_of ::
  "('v \<Rightarrow> 'v) \<Rightarrow> ('w, 'v) epoch_outcome
     \<Rightarrow> ('w, 'v) artifact option \<times> ('w, 'v) artifact option \<times> ('w, 'v) artifact option" where
  "files_of dt ep =
     (Some (Weights (state_dict ep)), Some (Table (f1_table dt (rslt_f1_by_class ep))),
      Some (PredTable (val_pairs ep)))"

text \<open>
  The state a fold is in after the epochs \<open>eps\<close>, started on the files \<open>fs\<close>: the writes
  are those of the improving epochs, and the best values and files are those of the
  best epoch, or the initial ones when no epoch had a positive F1.
\<close>

definition tracks ::
  "('v \<Rightarrow> 'v) \<Rightarrow> string \<Rightarrow> ('w, 'v) files \<Rightarrow> ('w, 'v) epoch_outcome list \<Rightarrow> ('w, 'v) fold_state
     \<Rightarrow> bool" where
  "tracks dt save_dir fs eps st =
     (trace st = fold_events eps
      \<and> (if \<exists>k. best_epoch eps k
         then \<exists>k. best_epoch eps k \<and> best_values st = values_of (eps ! k)
                  \<and> best_files save_dir (files st) = files_of dt (eps ! k)
         else (\<forall>j<length eps. val_f1 (eps ! j) \<le> 0)
              \<and> best_values st = (0, 0, NpInf)
              \<and> best_files save_dir (files st) = best_files save_dir fs))"

text \<open>
  Epoch outcomes whose accuracy, macro-F1 and report are those of their labels and
  predictions, as the doubles that numpy and scikit-learn compute (10/18 and 8/18 for
  the second): all wrong; ten right, with the better accuracy and the lower F1; half
  right; and the two labels of which one is right, whose report has the classes 0 and
  1 only. The three epochs of a fold: the second has the best accuracy and the best
  loss, the third the best F1.
\<close>

definition epoch_wrong :: "(nat, pyfloat) epoch_outcome" where
  "epoch_wrong =
     \<lparr>state_dict = 20, val_loss = 3, val_acc = 0, val_f1 = 0, val_pairs = pairs_wrong,
      rslt_f1_by_class = report_wrong\<rparr>"

definition epoch_skew :: "(nat, pyfloat) epoch_outcome" where
  "epoch_skew =
     \<lparr>state_dict = 21, val_loss = 1/2, val_acc = 2501999792983609 / 4503599627370496,
      val_f1 = 2001599834386887 / 4503599627370496, val_pairs = pairs_skew,
      rslt_f1_by_class = report_skew\<rparr>"

definition epoch_half :: "(nat, pyfloat) epoch_outcome" where
  "epoch_half =
     \<lparr>state_dict = 22, val_loss = 2, val_acc = 1/2, val_f1 = 1/2, val_pairs = pairs_half,
      rslt_f1_by_class = report_half\<rparr>"

definition epoch_two :: "(nat, pyfloat) epoch_outcome" where
  "epoch_two =
     \<lparr>state_dict = 23, val_loss = 2, val_acc = 1/2,
      val_f1 = 6004799503160661 / 18014398509481984, val_pairs = pairs_two,
      rslt_f1_by_class = report_two\<rparr>"

definition fold_epochs :: "(nat, pyfloat) epoch_outcome list" where
  "fold_epochs = [epoch_wrong, epoch_skew, epoch_half]"

section \<open>The training loop's log\<close>

text \<open>
  What a training batch contributes to the running sums: \<^verbatim>\<open>loss.item()\<close> and the number of
  correct predictions \<^verbatim>\<open>(preds == labels).sum().item()\<close>. Losses are taken as real numbers.
\<close>

record batch_outcome =
  loss_item :: real
  correct :: nat

text \<open>A pair of \<^verbatim>\<open>add_scalar\<close> calls (lines 275-276) with the batch index they are made at.\<close>

record log_entry =
  step :: nat
  train_loss :: real
  train_acc :: real

record train_state =
  loss_value :: real
  matches :: nat
  logged :: "log_entry list"

text \<open>
  Lines 262-279 for the batch with index \<open>idx\<close>. Python's \<^verbatim>\<open>%\<close> is the floored remainder,
  as \<open>mod\<close> on \<open>int\<close> is, and raises \<^verbatim>\<open>ZeroDivisionError\<close> on a zero divisor, as \<^verbatim>\<open>/\<close> does.
\<close>

definition train_batch ::
  "args \<Rightarrow> nat \<Rightarrow> batch_outcome \<Rightarrow> train_state \<Rightarrow> error + train_state" where
  "train_batch args idx b st =
     (let st1 = st\<lparr>loss_value := loss_value st + loss_item b,
                   matches := matches st + correct b\<rparr>
      in if log_interval args = 0 then Inl ZeroDivisionError
         else if (int idx + 1) mod log_interval args = 0 then
           if batch_size args = 0 then Inl ZeroDivisionError
           else Inr (st1\<lparr>logged := logged st1 @
                           [\<lparr>step = idx,
                             train_loss = loss_value st1 / real_of_int (log_interval args),
                             train_acc = real (matches st1) / real_of_int (batch_size args)
                                           / real_of_int (log_interval args)\<rparr>],
                         loss_value := 0, matches := 0\<rparr>)
         else Inr st1)"

text \<open>The loop of line 243 from the batch with index \<open>idx\<close> on.\<close>

fun train_batches ::
  "args \<Rightarrow> nat \<Rightarrow> batch_outcome list \<Rightarrow> train_state \<Rightarrow> error + train_state" where
  "train_batches args idx [] st = Inr st"
| "train_batches args idx (b # bs) st =
     (case train_batch args idx b st of
        Inl e \<Rightarrow> Inl e
      | Inr st' \<Rightarrow> train_batches args (Suc idx) bs st')"

text \<open>The training loop of one epoch: lines 238-239 and the loop of line 243.\<close>

definition train_epoch :: "args \<Rightarrow> batch_outcome list \<Rightarrow> error + train_state" where
  "train_epoch args bs =
     train_batches args 0 bs \<lparr>loss_value = 0, matches = 0, logged = []\<rparr>"

text \<open>
  The batches a log made at index \<open>s\<close> reports on when the interval is \<open>n\<close>: the \<open>n\<close>
  batches that end with batch \<open>s\<close>.
\<close>

definition window :: "nat \<Rightarrow> nat \<Rightarrow> 'a list \<Rightarrow> 'a list" where
  "window n s bs = take n (drop (Suc s - n) bs)"

text \<open>
  The state of the training loop after the batches \<open>bs\<close> of an epoch, for a positive
  interval: a log at each index whose successor is a multiple of the interval, each log
  an average over its window, and running sums over the batches after the last log.
\<close>

definition log_consistent :: "args \<Rightarrow> batch_outcome list \<Rightarrow> train_state \<Rightarrow> bool" where
  "log_consistent args bs st =
     (let n = nat (log_interval args) in
      map step (logged st) = filter (\<lambda>idx. Suc idx mod n = 0) [0..<length bs]
      \<and> list_all (\<lambda>e.
            train_loss e = sum_list (map loss_item (window n (step e) bs))
                             / real_of_int (log_interval args)
          \<and> train_acc e = real (sum_list (map correct (window n (step e) bs)))
                             / real_of_int (batch_size args) / real_of_int (log_interval args))
          (logged st)
      \<and> loss_value st = sum_list (map loss_item (drop (length bs - length bs mod n) bs))
      \<and> matches st = sum_list (map correct (drop (length bs - length bs mod n) bs)))"

text \<open>Settings and batches for the examples: a log every 2 batches of size 4.\<close>

definition demo_args :: args where
  "demo_args =
     \<lparr>seed = 42, epochs = 15, dataset = ''MaskSplitByProfileDataset'', batch_size = 4,
      valid_batch_size = 64, optimizer = ''Adam'', lr = 1 / 10000, val_ratio = 1 / 5,
      criterion = ''label_smoothing'', lr_decay_step = 10, log_interval = 2, name = ''ensem'',
      data_dir = ''/opt/ml/input/data/train/images'', model_dir = ''./model''\<rparr>"

definition demo_batches :: "batch_outcome list" where
  "demo_batches =
     [\<lparr>loss_item = 3, correct = 1\<rparr>, \<lparr>loss_item = 1, correct = 3\<rparr>,
      \<lparr>loss_item = 2, correct = 2\<rparr>, \<lparr>loss_item = 4, correct = 4\<rparr>,
      \<lparr>loss_item = 5, correct = 0\<rparr>]"

section \<open>The path incrementer\<close>

text \<open>
  The file system is the list of the path names that exist, each as \<^verbatim>\<open>pathlib\<close> prints it
  (components joined by \<^verbatim>\<open>/\<close>, no trailing \<^verbatim>\<open>/\<close>). The argument of \<^verbatim>\<open>increment_path\<close> is taken
  in that form too: it is what \<^verbatim>\<open>str(Path(path))\<close> yields at line 126.
\<close>

type_synonym filesystem = "string list"

definition path_exists :: "filesystem \<Rightarrow> string \<Rightarrow> bool" where
  "path_exists fs p = (p \<in> set fs)"

text \<open>
  \<^verbatim>\<open>glob.glob(f"{path}*")\<close> reads its argument as a pattern. For a path that has none of the
  pattern characters \<^verbatim>\<open>*\<close>, \<^verbatim>\<open>?\<close> and \<^verbatim>\<open>[\<close> and does not end in \<^verbatim>\<open>/\<close> (its last component is
  not empty), it lists the entries of the directory of the path whose name begins with
  the name of the path: the existing path names that extend the path by characters
  other than \<^verbatim>\<open>/\<close>. What it lists for another path is not modelled: there \<open>glob_star\<close> is
  the unspecified \<open>undefined\<close>, of which nothing is proved.
\<close>

definition plain_glob :: "string \<Rightarrow> bool" where
  "plain_glob p = (p \<noteq> [] \<and> last p \<noteq> CHR ''/'' \<and> list_all (\<lambda>c. c \<notin> set ''*?['') p)"

definition glob_star :: "filesystem \<Rightarrow> string \<Rightarrow> string list" where
  "glob_star fs p =
     (if plain_glob p
      then filter (\<lambda>d. prefix p d \<and> CHR ''/'' \<notin> set (drop (length p) d)) fs
      else undefined)"

text \<open>
  \<^verbatim>\<open>Path.name\<close>, the last component, and \<^verbatim>\<open>Path.stem\<close>, the name without its last suffix:
  with \<open>i\<close> the position of the last dot of the name, the stem is the name up to \<open>i\<close>
  when \<open>0 < i < len(name) - 1\<close>, and the name otherwise.
\<close>

definition path_name :: "string \<Rightarrow> string" where
  "path_name p = rev (takeWhile (\<lambda>c. c \<noteq> CHR ''/'') (rev p))"

definition stem :: "string \<Rightarrow> string" where
  "stem p =
     (let name = path_name p;
          ext = takeWhile (\<lambda>c. c \<noteq> CHR ''.'') (rev name);
          i = length name - Suc (length ext)
      in if CHR ''.'' \<in> set name \<and> 0 < i \<and> ext \<noteq> [] then take i name else name)"

text \<open>
  \<^verbatim>\<open>re.search(rf"%s(\d+)" % stem, d)\<close> reads the stem as a regular expression. For a stem
  that has none of the special characters of regular expressions, and a text \<open>d\<close> of
  ASCII characters, the search takes the leftmost position of \<open>d\<close> at which the stem
  stands followed by a digit, and its group 1 is the longest run of digits there;
  \<open>match_at\<close> is the match at the start of \<open>d\<close>. What the search finds for another stem
  or text is not modelled: there \<open>re_search\<close> is the unspecified \<open>undefined\<close>.
\<close>

definition plain_regex :: "string \<Rightarrow> bool" where
  "plain_regex s = list_all (\<lambda>c. c \<notin> set (''.^$*+?{}[]|()'' @ [CHR 0x5C])) s"

definition ascii :: "string \<Rightarrow> bool" where
  "ascii d = list_all (\<lambda>c. of_char c < (128 :: nat)) d"

definition match_at :: "string \<Rightarrow> string \<Rightarrow> string option" where
  "match_at s d =
     (let ds = takeWhile is_digit (drop (length s) d)
      in if prefix s d \<and> ds \<noteq> [] then Some ds else None)"

fun search_from :: "string \<Rightarrow> string \<Rightarrow> string option" where
  "search_from s [] = match_at s []"
| "search_from s (c # d) =
     (case match_at s (c # d) of Some g \<Rightarrow> Some g | None \<Rightarrow> search_from s d)"

definition re_search :: "string \<Rightarrow> string \<Rightarrow> string option" where
  "re_search s d = (if plain_regex s \<and> ascii d then search_from s d else undefined)"

text \<open>\<^verbatim>\<open>max(i)\<close> on the list of suffixes, which line 133 calls on a list that is not empty.\<close>

fun max_list :: "nat list \<Rightarrow> nat" where
  "max_list [] = 0"
| "max_list (x # xs) = max x (max_list xs)"

text \<open>\<^verbatim>\<open>increment_path\<close> (lines 119-134).\<close>

definition increment_path :: "filesystem \<Rightarrow> string \<Rightarrow> bool \<Rightarrow> string" where
  "increment_path fs path exist_ok =
     (if (path_exists fs path \<and> exist_ok) \<or> \<not> path_exists fs path then path
      else
        let dirs = glob_star fs path;
            matches = map (re_search (stem path)) dirs;
            i = [int_of_digits g. Some g \<leftarrow> matches];
            n = (if i \<noteq> [] then max_list i + 1 else 2)
        in path @ str_nat n)"

text \<open>
  A model directory \<^verbatim>\<open>ensem1\<close> in which the run \<^verbatim>\<open>ensem\<close> and its successors 0 to 3 exist.
\<close>

definition demo_fs :: filesystem where
  "demo_fs = [''ensem1'', ''ensem1/ensem'', ''ensem1/ensem0'', ''ensem1/ensem1'',
              ''ensem1/ensem2'', ''ensem1/ensem3'']"

text \<open>
  A model directory \<^verbatim>\<open>model\<close> in which the run \<^verbatim>\<open>ensem\<close> and its successors 0 to 3 exist,
  beside another run and a file inside the run.
\<close>

definition demo_fs2 :: filesystem where
  "demo_fs2 = [''model'', ''model/ensem'', ''model/ensem0'', ''model/ensem1'',
               ''model/ensem2'', ''model/ensem3'', ''model/other'', ''model/ensem/best.pth'']"

section \<open>Properties of the model selector\<close>

lemma select_model_densenet161:
  "select_model ''densenet161'' n = Inr m \<Longrightarrow> n_logits m = Some n"
  by (auto simp: select_model_def setattr_def densenet161_pretrained_def n_logits_def)

lemma select_model_shufflenet:
  "select_model ''shufflenet'' n = Inr m \<Longrightarrow> n_logits m = Some n"
  by (auto simp: select_model_def setattr_def shufflenet_pretrained_def n_logits_def)

lemma select_model_efficientnet:
  "select_model ''efficientnet'' n = Inr m \<Longrightarrow> n_logits m = Some n"
  by (auto simp: select_model_def efficientnet_from_pretrained_def n_logits_def)

text \<open>
  Claim C3, at the identifier \<^verbatim>\<open>resnet18\<close> and 18 classes: the selector assigns the new
  layer to the attribute \<^verbatim>\<open>classifier\<close>, which a ResNet does not use; the layer \<^verbatim>\<open>fc\<close> that
  ends its forward pass is the pretrained one, and the network returned emits 1000
  logits, not the 18 asked for.
\<close>

theorem select_model_resnet18_head:
  "select_model ''resnet18'' 18 =
     Inr \<lparr>arch = ResNet18,
          attrs = [''fc'' \<mapsto> Linear 512 1000, ''classifier'' \<mapsto> Linear 1024 18]\<rparr>
   \<and> map_sum id n_logits (select_model ''resnet18'' 18) = Inr (Some 1000)"
  by (simp add: select_model_def setattr_def resnet18_pretrained_def n_logits_def)

text \<open>
  Claim C4 as stated fails: at the identifier \<^verbatim>\<open>vgg16\<close>, which the chain does not
  know, the selector raises and returns nothing.
\<close>

theorem select_model_unrecognized_counterexample:
  "select_model ''vgg16'' 18 = Inl (UnboundLocalError ''model_'')"
  by (simp add: select_model_def)

text \<open>
  Claim C4, amended: for every identifier that is not one of the four recognized
  ones, and every class count, the selector falls through every branch and then raises
  \<^verbatim>\<open>UnboundLocalError\<close> at its return statement; no value is returned.
\<close>

theorem select_model_unrecognized:
  "model \<notin> recognized \<Longrightarrow> select_model model n = Inl (UnboundLocalError ''model_'')"
  by (simp add: select_model_def recognized_def)

theorem select_model_unrecognized_witness:
  "''vgg16'' \<notin> recognized \<and> select_model ''vgg16'' 18 = Inl (UnboundLocalError ''model_'')"
proof -
  have h: "''vgg16'' \<notin> recognized" by (simp add: recognized_def)
  show ?thesis using h select_model_unrecognized [OF h, of 18] by simp
qed

text \<open>
  Claim C10: whatever the settings and whatever class count the dataset reports, the
  network of a fold is \<^verbatim>\<open>select_model('efficientnet', 18)\<close>: an EfficientNet-b0 whose last
  layer has 18 outputs.
\<close>

theorem fold_model_fixed:
  "fold_model args num_classes = Inr (efficientnet_from_pretrained 18)
   \<and> arch (efficientnet_from_pretrained 18) = EfficientNet_b0
   \<and> n_logits (efficientnet_from_pretrained 18) = Some 18"
  by (simp add: fold_model_def select_model_def efficientnet_from_pretrained_def n_logits_def)


section \<open>Properties of the decimal numerals\<close>

lemma digit_char_is_digit: "d < 10 \<Longrightarrow> is_digit (digit_char d) \<and> digit_val (digit_char d) = d"
proof -
  assume "d < 10"
  then have "d \<in> set [0..<10]" by simp
  then have "d \<in> {0, 1, 2, 3, 4, 5, 6, 7, 8, 9}"
    by (simp add: upt_rec numeral_nat del: upt_Suc)
  then show ?thesis
    by (auto simp: digit_val_def digit_char_def is_digit_def)
qed

lemma str_nat_digits: "list_all is_digit (str_nat n) \<and> str_nat n \<noteq> []"
proof (induction n rule: str_nat.induct)
  case (1 n)
  show ?case
  proof (cases "n < 10")
    case True
    then show ?thesis
      by (simp add: str_nat.simps [of n] digit_char_is_digit)
  next
    case False
    with 1 show ?thesis
      by (simp add: str_nat.simps [of n] digit_char_is_digit)
  qed
qed

lemma int_of_digits_snoc: "int_of_digits (ds @ [c]) = 10 * int_of_digits ds + digit_val c"
  by (simp add: int_of_digits_def)

lemma int_of_digits_str_nat: "int_of_digits (str_nat n) = n"
proof (induction n rule: str_nat.induct)
  case (1 n)
  show ?case
  proof (cases "n < 10")
    case True
    then show ?thesis
      by (simp add: str_nat.simps [of n] int_of_digits_def digit_char_is_digit)
  next
    case False
    with 1 have "int_of_digits (str_nat (n div 10)) = n div 10" by simp
    with False show ?thesis
      by (simp add: str_nat.simps [of n] int_of_digits_snoc digit_char_is_digit)
  qed
qed

lemma str_nat_inj: "str_nat a = str_nat b \<Longrightarrow> a = b"
  by (metis int_of_digits_str_nat)

section \<open>Single precision at some doubles\<close>

lemma ilog2_values:
  "ilog2 third = - 2" "ilog2 1 = 0" "ilog2 (1/2) = - 1"
  by (simp_all add: ilog2_def third_def doublings.simps halvings.simps)

lemma floor_third: "\<lfloor>(6004799503160661 :: rat) / 536870912\<rfloor> = 11184810"
  by (rule floor_unique) simp_all

lemma round_single_values:
  "round_single third = 11184811 / 33554432"
  "round_single 1 = 1" "round_single (1/2) = 1/2" "round_single 0 = 0"
  by (simp_all add: round_single_def ilog2_values round_even_def Let_def power_int_minus
      floor_third third_def [symmetric])
    (simp_all add: third_def floor_third)

lemma float32_values:
  "float32 (Fin third) = Fin (11184811 / 33554432)"
  "float32 (Fin 1) = Fin 1" "float32 (Fin (1/2)) = Fin (1/2)" "float32 (Fin 0) = Fin 0"
  by (simp_all add: round_single_values Let_def)


section \<open>Properties of the error-analysis writer\<close>

lemma report_row_covered:
  assumes "report_cell report i ''precision'' = Some p"
      and "report_cell report i ''recall'' = Some r"
      and "report_cell report i ''f1-score'' = Some f"
  shows "report_row report (str_nat i) = Inr [p, r, f]"
  using assms
  by (auto simp: report_row_def report_cell_def getitem_def split: option.splits)

lemma fill_rows_covered:
  assumes "\<forall>i \<in> set ls. report_cell report i ''precision'' \<noteq> None
                 \<and> report_cell report i ''recall'' \<noteq> None
                 \<and> report_cell report i ''f1-score'' \<noteq> None"
      and "set ls \<subseteq> set (index df)"
  shows "fill_rows report ls df =
           Inr (df\<lparr>row_at := (\<lambda>l. if l \<in> set ls then Some (report_line (dtype df) report l)
                                   else row_at df l)\<rparr>)"
  using assms
proof (induction ls arbitrary: df)
  case Nil
  then show ?case by simp
next
  case (Cons a ls)
  from Cons.prems(1) obtain p r f where c:
    "report_cell report a ''precision'' = Some p"
    "report_cell report a ''recall'' = Some r"
    "report_cell report a ''f1-score'' = Some f"
    by auto
  let ?df = "loc_set_row df a [p, r, f]"
  have row: "report_row report (str_nat a) = Inr [p, r, f]"
    by (rule report_row_covered [OF c])
  have idx: "index ?df = index df" "dtype ?df = dtype df"
    using Cons.prems(2) by (simp_all add: loc_set_row_def)
  have ih: "fill_rows report ls ?df =
      Inr (?df\<lparr>row_at := (\<lambda>l. if l \<in> set ls then Some (report_line (dtype ?df) report l)
                               else row_at ?df l)\<rparr>)"
    using Cons.prems by (intro Cons.IH) (auto simp: idx)
  have "?df\<lparr>row_at := (\<lambda>l. if l \<in> set ls then Some (report_line (dtype ?df) report l)
                           else row_at ?df l)\<rparr>
      = df\<lparr>row_at := (\<lambda>l. if l \<in> set (a # ls) then Some (report_line (dtype df) report l)
                             else row_at df l)\<rparr>"
    unfolding idx using Cons.prems(2) c
    by (auto simp: loc_set_row_def report_line_def fun_eq_iff)
  with ih row show ?case by simp
qed

lemma save_f1_result_covered:
  assumes "report_covers report"
  shows "save_f1_result dt epoch report dir save_best fs =
           Inr (fs((if save_best then dir @ ''/f1_result.csv''
                    else dir @ ''/f1_result_epoch_'' @ str_nat epoch @ ''.csv'')
                     \<mapsto> Table (f1_table dt report)))"
proof -
  let ?df = "empty_frame [''precision'', ''recall'', ''f1''] [0..<18] dt"
  let ?df' = "?df\<lparr>row_at := (\<lambda>l. if l \<in> set (index ?df)
                                  then Some (report_line (dtype ?df) report l)
                                  else row_at ?df l)\<rparr>"
  have cov: "\<forall>i \<in> set [0..<18]. report_cell report i ''precision'' \<noteq> None
                 \<and> report_cell report i ''recall'' \<noteq> None
                 \<and> report_cell report i ''f1-score'' \<noteq> None"
    using assms unfolding report_covers_def list_all_iff .
  have ix: "index ?df = [0..<18]"
    by (simp add: empty_frame_def)
  have "fill_rows report (index ?df) ?df = Inr ?df'"
    by (rule fill_rows_covered) (use cov ix in auto)
  moreover have "to_csv ?df' = f1_table dt report"
    unfolding to_csv_def f1_table_def by (simp add: empty_frame_def)
  ultimately show ?thesis
    by (simp add: save_f1_result_def Let_def del: upt_Suc)
qed

lemma report_row_cases:
  "(\<exists>k. report_row report (str_nat i) = Inl (KeyError k))
   \<or> (\<exists>p r f. report_row report (str_nat i) = Inr [p, r, f]
         \<and> report_cell report i ''precision'' = Some p
         \<and> report_cell report i ''recall'' = Some r
         \<and> report_cell report i ''f1-score'' = Some f)"
  by (auto simp: report_row_def report_cell_def getitem_def split: option.splits)

lemma fill_rows_missing:
  assumes "i \<in> set ls"
      and "report_cell report i ''precision'' = None \<or> report_cell report i ''recall'' = None
           \<or> report_cell report i ''f1-score'' = None"
  shows "\<exists>k. fill_rows report ls df = Inl (KeyError k)"
  using assms(1)
proof (induction ls arbitrary: df)
  case Nil
  then show ?case by simp
next
  case (Cons a ls)
  from report_row_cases [of report a] show ?case
  proof
    assume "\<exists>k. report_row report (str_nat a) = Inl (KeyError k)"
    then show ?thesis by auto
  next
    assume "\<exists>p r f. report_row report (str_nat a) = Inr [p, r, f]
         \<and> report_cell report a ''precision'' = Some p
         \<and> report_cell report a ''recall'' = Some r
         \<and> report_cell report a ''f1-score'' = Some f"
    then obtain p r f where row: "report_row report (str_nat a) = Inr [p, r, f]"
      and c: "report_cell report a ''precision'' = Some p"
        "report_cell report a ''recall'' = Some r" "report_cell report a ''f1-score'' = Some f"
      by blast
    from c assms(2) have "i \<noteq> a" by auto
    with Cons.prems have "i \<in> set ls" by simp
    from Cons.IH [OF this, of "loc_set_row df a [p, r, f]"] row show ?thesis by simp
  qed
qed

lemma save_f1_result_missing:
  assumes "\<not> report_covers report"
  shows "\<exists>k. save_f1_result dt epoch report dir save_best fs = Inl (KeyError k)"
proof -
  from assms obtain i where i: "i \<in> set [0..<18]"
    "report_cell report i ''precision'' = None \<or> report_cell report i ''recall'' = None
           \<or> report_cell report i ''f1-score'' = None"
    unfolding report_covers_def list_all_iff by (auto simp del: upt_Suc)
  let ?df = "empty_frame [''precision'', ''recall'', ''f1''] [0..<18] dt"
  have "index ?df = [0..<18]"
    by (simp add: empty_frame_def)
  with fill_rows_missing [OF i, of ?df]
  obtain k where "fill_rows report (index ?df) ?df = Inl (KeyError k)"
    by auto
  then show ?thesis
    by (simp add: save_f1_result_def Let_def del: upt_Suc)
qed

lemma f1_table_rows:
  assumes "report_covers report" and "i < 18"
  shows "\<exists>e p r f. report (str_nat i) = Some e \<and> e ''precision'' = Some p
           \<and> e ''recall'' = Some r \<and> e ''f1-score'' = Some f
           \<and> rows (f1_table dt report) ! i = [Some (dt p), Some (dt r), Some (dt f)]"
proof -
  from assms obtain p r f where c:
    "report_cell report i ''precision'' = Some p"
    "report_cell report i ''recall'' = Some r"
    "report_cell report i ''f1-score'' = Some f"
    unfolding report_covers_def list_all_iff by fastforce
  from c(1) obtain e where e: "report (str_nat i) = Some e"
    by (auto simp: report_cell_def split: option.splits)
  have "rows (f1_table dt report) ! i = report_line dt report i"
    using assms(2) unfolding f1_table_def by (simp del: upt_Suc)
  with c e show ?thesis
    by (simp add: report_line_def report_cell_def)
qed

lemma f1_table_shape:
  "header (f1_table dt report) = [''precision'', ''recall'', ''f1'']"
  "length (rows (f1_table dt report)) = 18"
  by (simp_all add: f1_table_def)


lemma class_entry_metrics:
  "class_entry (p, r, f, s) ''precision'' = Some (Fin p)"
  "class_entry (p, r, f, s) ''recall'' = Some (Fin r)"
  "class_entry (p, r, f, s) ''f1-score'' = Some (Fin f)"
  by (simp_all add: class_entry_def)

lemma report_of_class:
  "i \<in> set cs \<Longrightarrow> report_of cs metrics (str_nat i) = Some (class_entry (metrics i))"
  by (simp add: report_of_def int_of_digits_str_nat)

lemma report_of_missing: "i \<notin> set cs \<Longrightarrow> report_of cs metrics (str_nat i) = None"
  by (auto simp: report_of_def dest: str_nat_inj)

lemma report_of_covers: "report_covers (report_of [0..<18] metrics)"
proof -
  have "report_cell (report_of [0..<18] metrics) i m = class_entry (metrics i) m"
    if "i \<in> set [0..<18]" for i m
    using report_of_class [OF that, of metrics] by (simp add: report_cell_def)
  moreover have "class_entry q ''precision'' \<noteq> None \<and> class_entry q ''recall'' \<noteq> None
      \<and> class_entry q ''f1-score'' \<noteq> None" for q
    by (cases q) (simp add: class_entry_def)
  ultimately show ?thesis
    unfolding report_covers_def list_all_iff by (simp del: upt_Suc)
qed

lemma reports_cover:
  "report_covers report_wrong" "report_covers report_skew" "report_covers report_half"
  "report_covers report_thirds"
  by (simp_all add: report_wrong_def report_skew_def report_half_def report_thirds_def
      report_of_covers)

lemma report_two_lacks: "report_two (str_nat 2) = None" "\<not> report_covers report_two"
proof -
  show n: "report_two (str_nat 2) = None"
    unfolding report_two_def by (rule report_of_missing) simp
  have "report_cell report_two 2 ''precision'' = None"
    by (simp add: report_cell_def n)
  moreover have "(2 :: nat) \<in> set [0..<18]"
    by simp
  ultimately show "\<not> report_covers report_two"
    unfolding report_covers_def list_all_iff by blast
qed


lemma report_thirds_lines:
  "report_line float32 report_thirds 0 = [Some (Fin 1), Some (Fin (11184811 / 33554432)), Some (Fin (1/2))]"
  "report_line float32 report_thirds 1 = [Some (Fin (11184811 / 33554432)), Some (Fin 1), Some (Fin (1/2))]"
  "2 \<le> i \<Longrightarrow> i < 18 \<Longrightarrow>
     report_line float32 report_thirds i = [Some (Fin 1), Some (Fin 1), Some (Fin 1)]"
proof -
  have c: "report_thirds (str_nat i) = Some (class_entry
      (if i = 0 then (1, third, 1/2, 3) else if i = 1 then (third, 1, 1/2, 1) else (1, 1, 1, 1)))"
    if "i < 18" for i
    unfolding report_thirds_def using report_of_class [of i "[0..<18]"] that by simp
  show "report_line float32 report_thirds 0
      = [Some (Fin 1), Some (Fin (11184811 / 33554432)), Some (Fin (1/2))]"
    using c [of 0]
    by (simp add: report_line_def report_cell_def class_entry_def float32_values
        del: float32.simps)
  show "report_line float32 report_thirds 1
      = [Some (Fin (11184811 / 33554432)), Some (Fin 1), Some (Fin (1/2))]"
    using c [of 1]
    by (simp add: report_line_def report_cell_def class_entry_def float32_values
        del: float32.simps)
  show "report_line float32 report_thirds i = [Some (Fin 1), Some (Fin 1), Some (Fin 1)]"
    if "2 \<le> i" and "i < 18"
  proof -
    from that have i: "i < 18" "i \<noteq> 0" "i \<noteq> 1"
      by simp_all
    from c [OF i(1)] i(2,3) show ?thesis
      by (simp add: report_line_def report_cell_def class_entry_def float32_values
          del: float32.simps)
  qed
qed

lemma report_thirds_table:
  "f1_table float32 report_thirds =
     Csv [''precision'', ''recall'', ''f1'']
       ([[Some (Fin 1), Some (Fin (11184811 / 33554432)), Some (Fin (1/2))],
         [Some (Fin (11184811 / 33554432)), Some (Fin 1), Some (Fin (1/2))]]
        @ replicate 16 [Some (Fin 1), Some (Fin 1), Some (Fin 1)])"
proof -
  have u: "[0..<18] = 0 # 1 # [2..<18]"
    by (simp add: upt_rec numeral_nat del: upt_Suc)
  have "map (report_line float32 report_thirds) [2..<18]
      = map (\<lambda>i. [Some (Fin 1), Some (Fin 1), Some (Fin 1)]) [2..<18]"
  proof (rule map_cong [OF refl])
    fix i :: nat
    assume "i \<in> set [2..<18]"
    then have "2 \<le> i" "i < 18"
      by (simp_all only: set_upt atLeastLessThan_iff)
    then show "report_line float32 report_thirds i = [Some (Fin 1), Some (Fin 1), Some (Fin 1)]"
      by (rule report_thirds_lines(3))
  qed
  also have "\<dots> = replicate 16 [Some (Fin 1), Some (Fin 1), Some (Fin 1)]"
    by (simp only: map_replicate_const length_upt) simp
  finally have m: "map (report_line float32 report_thirds) [2..<18]
      = replicate 16 [Some (Fin 1), Some (Fin 1), Some (Fin 1)]" .
  show ?thesis
    unfolding f1_table_def u
    by (simp only: list.map m report_thirds_lines(1,2) append_Cons append_Nil)
qed

lemma report_thirds_input:
  "report_cell report_thirds 1 ''precision'' = Some (Fin (6004799503160661 / 18014398509481984))"
proof -
  have "report_thirds (str_nat 1) = Some (class_entry (third, 1, 1/2, 1))"
    unfolding report_thirds_def using report_of_class [of 1 "[0..<18]"] by simp
  then show ?thesis
    by (simp add: report_cell_def class_entry_def third_def)
qed

text \<open>
  Claim C5 as stated fails at the report of the labels and predictions \<open>pairs_thirds\<close>,
  which covers the classes 0 to 17: the precision of class 1 is the double nearest to
  1/3, and the table holds it rounded to single precision, a different number. The
  same goes for the recall of class 0.
\<close>

theorem save_f1_result_rounds_counterexample:
  "report_covers report_thirds
   \<and> report_cell report_thirds 1 ''precision'' = Some (Fin (6004799503160661 / 18014398509481984))
   \<and> save_f1_result float32 0 report_thirds ''exp'' True (Map.empty :: (nat, pyfloat) files) =
       Inr [''exp/f1_result.csv'' \<mapsto> Table (Csv [''precision'', ''recall'', ''f1'']
         ([[Some (Fin 1), Some (Fin (11184811 / 33554432)), Some (Fin (1/2))],
           [Some (Fin (11184811 / 33554432)), Some (Fin 1), Some (Fin (1/2))]]
          @ replicate 16 [Some (Fin 1), Some (Fin 1), Some (Fin 1)]))]
   \<and> Fin (11184811 / 33554432) \<noteq> Fin (6004799503160661 / 18014398509481984)"
  using save_f1_result_covered [OF reports_cover(4), of float32 0 "''exp''" True
      "Map.empty :: (nat, pyfloat) files"] reports_cover(4) report_thirds_input
  by (simp add: report_thirds_table)

text \<open>
  Claim C5, amended: for every report that covers the classes 0 to 17 with precision,
  recall and F1, the writer stores a table with the three columns and exactly 18 rows,
  one per class in ascending order of the class index; the cells of row \<open>i\<close> are the
  precision, recall and F1 that the report has for class \<open>i\<close>, each converted to the
  frame's dtype \<^verbatim>\<open>float32\<close>, that is, rounded to single precision. (A value that is a
  single-precision number is stored unchanged; the double nearest to 1/3 is not.)
\<close>

theorem save_f1_result_single_precision:
  assumes "report_covers report"
  shows "\<exists>t. save_f1_result float32 epoch report dir save_best fs =
               Inr (fs((if save_best then dir @ ''/f1_result.csv''
                        else dir @ ''/f1_result_epoch_'' @ str_nat epoch @ ''.csv'')
                         \<mapsto> Table t))
           \<and> header t = [''precision'', ''recall'', ''f1'']
           \<and> length (rows t) = 18
           \<and> (\<forall>i<18. \<exists>e p r f. report (str_nat i) = Some e \<and> e ''precision'' = Some p
                   \<and> e ''recall'' = Some r \<and> e ''f1-score'' = Some f
                   \<and> rows t ! i = [Some (float32 p), Some (float32 r), Some (float32 f)])"
  using save_f1_result_covered [OF assms, of float32 epoch dir save_best fs]
    f1_table_rows [OF assms, of _ float32] f1_table_shape [of float32 report]
  by blast

theorem save_f1_result_single_precision_witness:
  "report_covers report_thirds
   \<and> (\<exists>t. save_f1_result float32 3 report_thirds ''exp'' False (Map.empty :: (nat, pyfloat) files) =
               Inr [''exp/f1_result_epoch_3.csv'' \<mapsto> Table t]
           \<and> header t = [''precision'', ''recall'', ''f1'']
           \<and> length (rows t) = 18
           \<and> rows t ! 1 = [Some (Fin (11184811 / 33554432)), Some (Fin 1), Some (Fin (1/2))]
           \<and> rows t ! 17 = [Some (Fin 1), Some (Fin 1), Some (Fin 1)])"
proof -
  from save_f1_result_single_precision [OF reports_cover(4), of 3 "''exp''" False
      "Map.empty :: (nat, pyfloat) files"]
  obtain t where t: "save_f1_result float32 3 report_thirds ''exp'' False
        (Map.empty :: (nat, pyfloat) files) =
        Inr [(if False then ''exp'' @ ''/f1_result.csv''
              else ''exp'' @ ''/f1_result_epoch_'' @ str_nat 3 @ ''.csv'') \<mapsto> Table t]"
      and h: "header t = [''precision'', ''recall'', ''f1'']" and l: "length (rows t) = 18"
    by blast
  have s: "str_nat 3 = ''3''"
    by (simp add: str_nat.simps digit_char_def)
  from t have t': "save_f1_result float32 3 report_thirds ''exp'' False
        (Map.empty :: (nat, pyfloat) files) = Inr [''exp/f1_result_epoch_3.csv'' \<mapsto> Table t]"
    by (simp add: s)
  from save_f1_result_covered [OF reports_cover(4), of float32 3 "''exp''" False
      "Map.empty :: (nat, pyfloat) files"] t'
  have "[''exp/f1_result_epoch_3.csv'' \<mapsto> (Table t :: (nat, pyfloat) artifact)]
      = [''exp/f1_result_epoch_3.csv'' \<mapsto> Table (f1_table float32 report_thirds)]"
    by (simp add: s)
  then have "Table t = (Table (f1_table float32 report_thirds) :: (nat, pyfloat) artifact)"
    by (rule map_upd_eqD1)
  then have "t = f1_table float32 report_thirds"
    by simp
  then have "rows t ! 1 = [Some (Fin (11184811 / 33554432)), Some (Fin 1), Some (Fin (1/2))]
      \<and> rows t ! 17 = [Some (Fin 1), Some (Fin 1), Some (Fin 1)]"
    by (simp add: report_thirds_table nth_append)
  with t' h l reports_cover(4) show ?thesis
    by (intro conjI exI [of _ t]) simp_all
qed


section \<open>Properties of the validation bookkeeping\<close>

lemma save_best_val_pred_pairs:
  "save_best_val_pred (map fst ps) (map snd ps) dir fs =
     Inr (fs(dir @ ''/pred_result.csv'' \<mapsto> PredTable ps))"
  by (simp add: save_best_val_pred_def zip_map_fst_snd)

lemma validate_epoch_better:
  assumes "best_f1 st < val_f1 ep" and "report_covers (rslt_f1_by_class ep)"
  shows "validate_epoch dt dir k ep st =
     Inr \<lparr>best_val_acc = val_acc ep, best_val_loss = Loss (val_loss ep), best_f1 = val_f1 ep,
          files = (files st)(dir @ ''/best.pth'' \<mapsto> Weights (state_dict ep),
                             dir @ ''/f1_result.csv'' \<mapsto> Table (f1_table dt (rslt_f1_by_class ep)),
                             dir @ ''/pred_result.csv'' \<mapsto> PredTable (val_pairs ep),
                             dir @ ''/last.pth'' \<mapsto> Weights (state_dict ep)),
          trace = trace st @ epoch_events True k\<rparr>"
  using assms(1)
  by (simp add: validate_epoch_def Let_def save_f1_result_covered [OF assms(2)]
      save_best_val_pred_pairs epoch_events_def)

lemma validate_epoch_raises:
  assumes "best_f1 st < val_f1 ep" and "\<not> report_covers (rslt_f1_by_class ep)"
  shows "\<exists>key. validate_epoch dt dir n ep st =
     Inl (KeyError key,
          \<lparr>best_val_acc = val_acc ep, best_val_loss = Loss (val_loss ep), best_f1 = val_f1 ep,
           files = (files st)(dir @ ''/best.pth'' \<mapsto> Weights (state_dict ep)),
           trace = trace st @ [SaveBest n]\<rparr>)"
proof -
  from save_f1_result_missing [OF assms(2)]
  obtain key where "save_f1_result dt n (rslt_f1_by_class ep) dir True
      ((files st)(dir @ ''/best.pth'' \<mapsto> Weights (state_dict ep))) = Inl (KeyError key)"
    by blast
  with assms(1) show ?thesis
    by (simp add: validate_epoch_def Let_def)
qed

lemma validate_epoch_not_better:
  assumes "\<not> best_f1 st < val_f1 ep"
  shows "validate_epoch dt dir k ep st =
     Inr (st\<lparr>files := (files st)(dir @ ''/last.pth'' \<mapsto> Weights (state_dict ep)),
             trace := trace st @ epoch_events False k\<rparr>)"
  using assms by (simp add: validate_epoch_def epoch_events_def)

lemma run_epochs_snoc:
  "run_epochs dt dir k (eps @ [ep]) st =
     (case run_epochs dt dir k eps st of
        Inl e \<Rightarrow> Inl e
      | Inr st' \<Rightarrow> validate_epoch dt dir (k + length eps) ep st')"
  by (induction eps arbitrary: k st) (auto split: sum.splits)

lemma improves_snoc_old: "k < length eps \<Longrightarrow> improves (eps @ [ep]) k = improves eps k"
  by (simp add: improves_def nth_append)

lemma improves_snoc_new:
  "improves (eps @ [ep]) (length eps) =
     (0 < val_f1 ep \<and> (\<forall>j<length eps. val_f1 (eps ! j) < val_f1 ep))"
  by (simp add: improves_def nth_append)

lemma fold_events_snoc:
  "fold_events (eps @ [ep]) =
     fold_events eps @ epoch_events (improves (eps @ [ep]) (length eps)) (length eps)"
proof -
  have m: "map (\<lambda>k. epoch_events (improves (eps @ [ep]) k) k) [0..<length eps]
      = map (\<lambda>k. epoch_events (improves eps k) k) [0..<length eps]"
    by (rule map_cong) (simp_all add: improves_snoc_old)
  show ?thesis by (simp add: fold_events_def m)
qed

lemma best_epoch_unique: "best_epoch eps k \<Longrightarrow> best_epoch eps k' \<Longrightarrow> k = k'"
  unfolding best_epoch_def improves_def
  by (metis linorder_neqE_nat not_le)

lemma best_epoch_snoc_new:
  assumes "0 < val_f1 ep" and "\<forall>j<length eps. val_f1 (eps ! j) < val_f1 ep"
  shows "best_epoch (eps @ [ep]) (length eps)"
  using assms by (auto simp: best_epoch_def improves_def nth_append less_Suc_eq)

lemma best_epoch_snoc_old:
  assumes "best_epoch eps k" and "val_f1 ep \<le> val_f1 (eps ! k)"
  shows "best_epoch (eps @ [ep]) k"
  using assms by (auto simp: best_epoch_def improves_def nth_append less_Suc_eq)

lemma best_epoch_snoc_none:
  assumes "\<forall>j<length eps. val_f1 (eps ! j) \<le> 0" and "val_f1 ep \<le> 0"
  shows "\<not> best_epoch (eps @ [ep]) k"
proof
  assume b: "best_epoch (eps @ [ep]) k"
  then have "k < Suc (length eps)" and "0 < val_f1 ((eps @ [ep]) ! k)"
    by (simp_all add: best_epoch_def improves_def)
  with assms show False
    by (cases "k < length eps") (auto simp: nth_append less_Suc_eq dest: spec [of _ k])
qed

lemma tracks_start: "tracks dt dir fs [] (fold_start fs)"
  by (simp add: tracks_def fold_events_def best_epoch_def best_values_def fold_start_def)

lemma tracks_step:
  assumes t: "tracks dt dir fs eps st"
      and v: "validate_epoch dt dir (length eps) ep st = Inr st'"
      and c: "report_covers (rslt_f1_by_class ep)"
  shows "tracks dt dir fs (eps @ [ep]) st'"
proof (cases "\<exists>k. best_epoch eps k")
  case True
  with t obtain k where k: "best_epoch eps k" "best_values st = values_of (eps ! k)"
      "best_files dir (files st) = files_of dt (eps ! k)" and tr: "trace st = fold_events eps"
    by (auto simp: tracks_def)
  from k(1) have kl: "k < length eps" and kmax: "\<forall>j<length eps. val_f1 (eps ! j) \<le> val_f1 (eps ! k)"
    and kpos: "0 < val_f1 (eps ! k)"
    by (simp_all add: best_epoch_def improves_def)
  from k(2) have bf: "best_f1 st = val_f1 (eps ! k)"
    by (simp add: best_values_def values_of_def)
  show ?thesis
  proof (cases "best_f1 st < val_f1 ep")
    case better: True
    have new: "best_epoch (eps @ [ep]) (length eps)"
      using better bf kmax kpos by (intro best_epoch_snoc_new) (auto intro: le_less_trans)
    then have imp: "improves (eps @ [ep]) (length eps)"
      by (simp add: best_epoch_def)
    from v validate_epoch_better [OF better c, of dt dir "length eps"]
    have st': "st' = \<lparr>best_val_acc = val_acc ep, best_val_loss = Loss (val_loss ep),
          best_f1 = val_f1 ep,
          files = (files st)(dir @ ''/best.pth'' \<mapsto> Weights (state_dict ep),
                             dir @ ''/f1_result.csv'' \<mapsto> Table (f1_table dt (rslt_f1_by_class ep)),
                             dir @ ''/pred_result.csv'' \<mapsto> PredTable (val_pairs ep),
                             dir @ ''/last.pth'' \<mapsto> Weights (state_dict ep)),
          trace = trace st @ epoch_events True (length eps)\<rparr>"
      by simp
    have "trace st' = fold_events (eps @ [ep])"
      by (simp add: st' tr fold_events_snoc imp)
    moreover have "best_values st' = values_of ((eps @ [ep]) ! length eps)"
      by (simp add: st' best_values_def values_of_def)
    moreover have "best_files dir (files st') = files_of dt ((eps @ [ep]) ! length eps)"
      by (simp add: st' best_files_def files_of_def)
    ultimately show ?thesis
      using new unfolding tracks_def by auto
  next
    case worse: False
    have old: "best_epoch (eps @ [ep]) k"
      using worse bf by (intro best_epoch_snoc_old [OF k(1)]) simp
    have nimp: "\<not> improves (eps @ [ep]) (length eps)"
      using worse bf kl by (auto simp: improves_snoc_new not_less dest: spec [of _ k])
    from v validate_epoch_not_better [OF worse, of dt dir "length eps"]
    have st': "st' = st\<lparr>files := (files st)(dir @ ''/last.pth'' \<mapsto> Weights (state_dict ep)),
             trace := trace st @ epoch_events False (length eps)\<rparr>"
      by simp
    have "trace st' = fold_events (eps @ [ep])"
      by (simp add: st' tr fold_events_snoc nimp)
    moreover have "best_values st' = values_of ((eps @ [ep]) ! k)"
      using k(2) kl by (simp add: st' best_values_def nth_append)
    moreover have "best_files dir (files st') = files_of dt ((eps @ [ep]) ! k)"
      using k(3) kl by (simp add: st' best_files_def nth_append)
    ultimately show ?thesis
      using old unfolding tracks_def by auto
  qed
next
  case False
  with t have none: "\<forall>j<length eps. val_f1 (eps ! j) \<le> 0"
    and bv: "best_values st = (0, 0, NpInf)"
    and bfl: "best_files dir (files st) = best_files dir fs"
    and tr: "trace st = fold_events eps"
    by (auto simp: tracks_def)
  from bv have bf: "best_f1 st = 0"
    by (simp add: best_values_def)
  show ?thesis
  proof (cases "best_f1 st < val_f1 ep")
    case better: True
    have new: "best_epoch (eps @ [ep]) (length eps)"
      using better bf none by (intro best_epoch_snoc_new) (auto intro: le_less_trans)
    then have imp: "improves (eps @ [ep]) (length eps)"
      by (simp add: best_epoch_def)
    from v validate_epoch_better [OF better c, of dt dir "length eps"]
    have st': "st' = \<lparr>best_val_acc = val_acc ep, best_val_loss = Loss (val_loss ep),
          best_f1 = val_f1 ep,
          files = (files st)(dir @ ''/best.pth'' \<mapsto> Weights (state_dict ep),
                             dir @ ''/f1_result.csv'' \<mapsto> Table (f1_table dt (rslt_f1_by_class ep)),
                             dir @ ''/pred_result.csv'' \<mapsto> PredTable (val_pairs ep),
                             dir @ ''/last.pth'' \<mapsto> Weights (state_dict ep)),
          trace = trace st @ epoch_events True (length eps)\<rparr>"
      by simp
    have "trace st' = fold_events (eps @ [ep])"
      by (simp add: st' tr fold_events_snoc imp)
    moreover have "best_values st' = values_of ((eps @ [ep]) ! length eps)"
      by (simp add: st' best_values_def values_of_def)
    moreover have "best_files dir (files st') = files_of dt ((eps @ [ep]) ! length eps)"
      by (simp add: st' best_files_def files_of_def)
    ultimately show ?thesis
      using new unfolding tracks_def by auto
  next
    case worse: False
    then have le: "val_f1 ep \<le> 0"
      using bf by simp
    have nob: "\<not> (\<exists>k. best_epoch (eps @ [ep]) k)"
      using best_epoch_snoc_none [OF none le] by simp
    have nimp: "\<not> improves (eps @ [ep]) (length eps)"
      using le by (simp add: improves_snoc_new)
    from v validate_epoch_not_better [OF worse, of dt dir "length eps"]
    have st': "st' = st\<lparr>files := (files st)(dir @ ''/last.pth'' \<mapsto> Weights (state_dict ep)),
             trace := trace st @ epoch_events False (length eps)\<rparr>"
      by simp
    have "trace st' = fold_events (eps @ [ep])"
      by (simp add: st' tr fold_events_snoc nimp)
    moreover have "best_values st' = (0, 0, NpInf)"
      using bv by (simp add: st' best_values_def)
    moreover have "best_files dir (files st') = best_files dir fs"
      using bfl by (simp add: st' best_files_def)
    moreover have "\<forall>j<length (eps @ [ep]). val_f1 ((eps @ [ep]) ! j) \<le> 0"
      using none le by (auto simp: nth_append less_Suc_eq)
    ultimately show ?thesis
      using nob unfolding tracks_def by auto
  qed
qed

lemma validate_epoch_completes:
  assumes "report_covers (rslt_f1_by_class ep)"
  shows "\<exists>st'. validate_epoch dt dir k ep st = Inr st'"
  using validate_epoch_better [OF _ assms, of st dt dir k]
    validate_epoch_not_better [of st ep dt dir k]
  by (cases "best_f1 st < val_f1 ep") auto

lemma run_fold_tracks:
  assumes "list_all (\<lambda>ep. report_covers (rslt_f1_by_class ep)) eps"
  shows "\<exists>st. run_fold dt dir fs eps = Inr st \<and> tracks dt dir fs eps st"
  using assms
proof (induction eps rule: rev_induct)
  case Nil
  then show ?case by (simp add: run_fold_def tracks_start)
next
  case (snoc ep eps)
  then obtain st where st: "run_fold dt dir fs eps = Inr st" "tracks dt dir fs eps st"
    by auto
  from snoc.prems have c: "report_covers (rslt_f1_by_class ep)"
    by simp
  obtain st' where st': "validate_epoch dt dir (length eps) ep st = Inr st'"
    using validate_epoch_completes [OF c] by blast
  have "run_fold dt dir fs (eps @ [ep]) = Inr st'"
    using st(1) st' by (simp add: run_fold_def run_epochs_snoc)
  with tracks_step [OF st(2) st' c] show ?case by simp
qed

lemma fold_events_best:
  "k < length eps \<Longrightarrow>
     (SaveBest k \<in> set (fold_events eps)) = improves eps k
   \<and> (SaveF1Result k \<in> set (fold_events eps)) = improves eps k
   \<and> (SaveBestValPred k \<in> set (fold_events eps)) = improves eps k
   \<and> SaveLast k \<in> set (fold_events eps)"
  by (auto simp: fold_events_def epoch_events_def split: if_splits)

lemma tracks_best:
  assumes "tracks dt dir fs eps st" and "best_epoch eps k"
  shows "best_values st = values_of (eps ! k) \<and> best_files dir (files st) = files_of dt (eps ! k)"
proof -
  from assms(2) have "\<exists>k. best_epoch eps k" by blast
  with assms(1) obtain k' where k': "best_epoch eps k'" "best_values st = values_of (eps ! k')"
      "best_files dir (files st) = files_of dt (eps ! k')"
    unfolding tracks_def by (auto split: if_splits)
  from best_epoch_unique [OF assms(2) k'(1)] k'(2,3) show ?thesis by simp
qed

lemma tracks_none:
  assumes "tracks dt dir fs eps st" and "\<forall>j<length eps. val_f1 (eps ! j) \<le> 0"
  shows "best_values st = (0, 0, NpInf) \<and> best_files dir (files st) = best_files dir fs"
proof -
  have "\<not> best_epoch eps k" for k
  proof
    assume "best_epoch eps k"
    then have "k < length eps" "0 < val_f1 (eps ! k)"
      by (simp_all add: best_epoch_def improves_def)
    with assms(2) show False by (auto dest: spec [of _ k])
  qed
  then have "\<not> (\<exists>k. best_epoch eps k)" by blast
  with assms(1) show ?thesis
    unfolding tracks_def by (simp split: if_splits)
qed

lemma fold_epochs_covered: "list_all (\<lambda>ep. report_covers (rslt_f1_by_class ep)) fold_epochs"
  by (simp add: fold_epochs_def epoch_wrong_def epoch_skew_def epoch_half_def reports_cover)

lemma fold_epochs_nth:
  "fold_epochs ! 0 = epoch_wrong" "fold_epochs ! 1 = epoch_skew" "fold_epochs ! 2 = epoch_half"
  "length fold_epochs = 3"
  by (simp_all add: fold_epochs_def)

lemma fold_epochs_best: "best_epoch fold_epochs 2"
  by (auto simp: best_epoch_def improves_def fold_epochs_def epoch_wrong_def epoch_skew_def
      epoch_half_def less_Suc_eq numeral_3_eq_3 numeral_2_eq_2)

lemma epoch_two_improves:
  "best_f1 (fold_start fs) < val_f1 epoch_two" "\<not> report_covers (rslt_f1_by_class epoch_two)"
  by (simp_all add: fold_start_def epoch_two_def report_two_lacks)

text \<open>
  Claim C2 as stated fails at a fold whose first epoch predicts every label wrong and so
  has a validation F1 of 0: that F1 exceeds the F1 of every previous epoch, for there is
  none, and yet the epoch writes no best artifact, only \<^verbatim>\<open>last.pth\<close>, because \<^verbatim>\<open>best_f1\<close>
  starts at 0 and the test is strict.
\<close>

theorem best_artifacts_counterexample:
  "run_fold float32 ''exp'' Map.empty [epoch_wrong] =
     Inr \<lparr>best_val_acc = 0, best_val_loss = NpInf, best_f1 = 0,
          files = [''exp/last.pth'' \<mapsto> Weights 20], trace = [SaveLast 0]\<rparr>"
  by (simp add: run_fold_def fold_start_def validate_epoch_def epoch_wrong_def)

text \<open>
  Claim C2, amended: in a fold in which the classification report of every epoch covers
  the classes 0 to 17, epoch \<open>k\<close> writes the best artifacts (\<^verbatim>\<open>best.pth\<close> and the two CSV
  reports) if and only if its validation F1 is positive and strictly exceeds the F1 of
  every previous epoch of the fold; the error-analysis writers run in those epochs
  only. After any number of epochs the three best files hold the weights, the report
  and the predictions of the first epoch that reached the largest F1 so far, when that
  F1 is positive; when no epoch had a positive F1 the three files are as they were
  before the fold. An epoch whose F1 is above \<^verbatim>\<open>best_f1\<close> and whose report lacks one of
  the classes 0 to 17 overwrites \<^verbatim>\<open>best.pth\<close>, then raises \<^verbatim>\<open>KeyError\<close> in the metrics
  writer: it writes neither CSV report, and the run ends there.
\<close>

theorem best_artifacts_policy:
  assumes "list_all (\<lambda>ep. report_covers (rslt_f1_by_class ep)) eps"
  shows "(\<exists>st. run_fold dt dir fs eps = Inr st
    \<and> (\<forall>k<length eps.
          (SaveBest k \<in> set (trace st))
             = (0 < val_f1 (eps ! k) \<and> (\<forall>j<k. val_f1 (eps ! j) < val_f1 (eps ! k)))
        \<and> (SaveF1Result k \<in> set (trace st))
             = (0 < val_f1 (eps ! k) \<and> (\<forall>j<k. val_f1 (eps ! j) < val_f1 (eps ! k)))
        \<and> (SaveBestValPred k \<in> set (trace st))
             = (0 < val_f1 (eps ! k) \<and> (\<forall>j<k. val_f1 (eps ! j) < val_f1 (eps ! k))))
    \<and> (\<forall>k<length eps.
          0 < val_f1 (eps ! k) \<and> (\<forall>j<k. val_f1 (eps ! j) < val_f1 (eps ! k))
          \<and> (\<forall>j<length eps. val_f1 (eps ! j) \<le> val_f1 (eps ! k)) \<longrightarrow>
            files st (dir @ ''/best.pth'') = Some (Weights (state_dict (eps ! k)))
          \<and> files st (dir @ ''/f1_result.csv'') = Some (Table (f1_table dt (rslt_f1_by_class (eps ! k))))
          \<and> files st (dir @ ''/pred_result.csv'') = Some (PredTable (val_pairs (eps ! k))))
    \<and> ((\<forall>j<length eps. val_f1 (eps ! j) \<le> 0) \<longrightarrow>
          files st (dir @ ''/best.pth'') = fs (dir @ ''/best.pth'')
        \<and> files st (dir @ ''/f1_result.csv'') = fs (dir @ ''/f1_result.csv'')
        \<and> files st (dir @ ''/pred_result.csv'') = fs (dir @ ''/pred_result.csv'')))
   \<and> (best_f1 s < val_f1 ep \<and> \<not> report_covers (rslt_f1_by_class ep) \<longrightarrow>
        (\<exists>key s'. validate_epoch dt dir n ep s = Inl (KeyError key, s')
           \<and> files s' (dir @ ''/best.pth'') = Some (Weights (state_dict ep))
           \<and> files s' (dir @ ''/f1_result.csv'') = files s (dir @ ''/f1_result.csv'')
           \<and> files s' (dir @ ''/pred_result.csv'') = files s (dir @ ''/pred_result.csv'')
           \<and> trace s' = trace s @ [SaveBest n]))"
proof (rule conjI)
  from run_fold_tracks [OF assms, of dt dir fs]
  obtain st where run: "run_fold dt dir fs eps = Inr st" and t: "tracks dt dir fs eps st"
    by blast
  from t have tr: "trace st = fold_events eps"
    by (simp add: tracks_def)
  have writes: "(SaveBest k \<in> set (trace st))
             = (0 < val_f1 (eps ! k) \<and> (\<forall>j<k. val_f1 (eps ! j) < val_f1 (eps ! k)))
        \<and> (SaveF1Result k \<in> set (trace st))
             = (0 < val_f1 (eps ! k) \<and> (\<forall>j<k. val_f1 (eps ! j) < val_f1 (eps ! k)))
        \<and> (SaveBestValPred k \<in> set (trace st))
             = (0 < val_f1 (eps ! k) \<and> (\<forall>j<k. val_f1 (eps ! j) < val_f1 (eps ! k)))"
    if "k < length eps" for k
    using fold_events_best [OF that] unfolding tr improves_def by simp
  have best: "files st (dir @ ''/best.pth'') = Some (Weights (state_dict (eps ! k)))
          \<and> files st (dir @ ''/f1_result.csv'') = Some (Table (f1_table dt (rslt_f1_by_class (eps ! k))))
          \<and> files st (dir @ ''/pred_result.csv'') = Some (PredTable (val_pairs (eps ! k)))"
    if "best_epoch eps k" for k
    using tracks_best [OF t that] by (simp add: best_files_def files_of_def)
  have none: "files st (dir @ ''/best.pth'') = fs (dir @ ''/best.pth'')
        \<and> files st (dir @ ''/f1_result.csv'') = fs (dir @ ''/f1_result.csv'')
        \<and> files st (dir @ ''/pred_result.csv'') = fs (dir @ ''/pred_result.csv'')"
    if z: "\<forall>j<length eps. val_f1 (eps ! j) \<le> 0"
    using tracks_none [OF t z] by (simp add: best_files_def)
  show "\<exists>st. run_fold dt dir fs eps = Inr st
    \<and> (\<forall>k<length eps.
          (SaveBest k \<in> set (trace st))
             = (0 < val_f1 (eps ! k) \<and> (\<forall>j<k. val_f1 (eps ! j) < val_f1 (eps ! k)))
        \<and> (SaveF1Result k \<in> set (trace st))
             = (0 < val_f1 (eps ! k) \<and> (\<forall>j<k. val_f1 (eps ! j) < val_f1 (eps ! k)))
        \<and> (SaveBestValPred k \<in> set (trace st))
             = (0 < val_f1 (eps ! k) \<and> (\<forall>j<k. val_f1 (eps ! j) < val_f1 (eps ! k))))
    \<and> (\<forall>k<length eps.
          0 < val_f1 (eps ! k) \<and> (\<forall>j<k. val_f1 (eps ! j) < val_f1 (eps ! k))
          \<and> (\<forall>j<length eps. val_f1 (eps ! j) \<le> val_f1 (eps ! k)) \<longrightarrow>
            files st (dir @ ''/best.pth'') = Some (Weights (state_dict (eps ! k)))
          \<and> files st (dir @ ''/f1_result.csv'') = Some (Table (f1_table dt (rslt_f1_by_class (eps ! k))))
          \<and> files st (dir @ ''/pred_result.csv'') = Some (PredTable (val_pairs (eps ! k))))
    \<and> ((\<forall>j<length eps. val_f1 (eps ! j) \<le> 0) \<longrightarrow>
          files st (dir @ ''/best.pth'') = fs (dir @ ''/best.pth'')
        \<and> files st (dir @ ''/f1_result.csv'') = fs (dir @ ''/f1_result.csv'')
        \<and> files st (dir @ ''/pred_result.csv'') = fs (dir @ ''/pred_result.csv''))"
    using run writes best none unfolding best_epoch_def improves_def by blast
next
  show "best_f1 s < val_f1 ep \<and> \<not> report_covers (rslt_f1_by_class ep) \<longrightarrow>
        (\<exists>key s'. validate_epoch dt dir n ep s = Inl (KeyError key, s')
           \<and> files s' (dir @ ''/best.pth'') = Some (Weights (state_dict ep))
           \<and> files s' (dir @ ''/f1_result.csv'') = files s (dir @ ''/f1_result.csv'')
           \<and> files s' (dir @ ''/pred_result.csv'') = files s (dir @ ''/pred_result.csv'')
           \<and> trace s' = trace s @ [SaveBest n])"
  proof
    assume h: "best_f1 s < val_f1 ep \<and> \<not> report_covers (rslt_f1_by_class ep)"
    from validate_epoch_raises [OF h [THEN conjunct1] h [THEN conjunct2], of dt dir n]
    obtain key where "validate_epoch dt dir n ep s =
       Inl (KeyError key,
          \<lparr>best_val_acc = val_acc ep, best_val_loss = Loss (val_loss ep), best_f1 = val_f1 ep,
           files = (files s)(dir @ ''/best.pth'' \<mapsto> Weights (state_dict ep)),
           trace = trace s @ [SaveBest n]\<rparr>)"
      by blast
    then show "\<exists>key s'. validate_epoch dt dir n ep s = Inl (KeyError key, s')
           \<and> files s' (dir @ ''/best.pth'') = Some (Weights (state_dict ep))
           \<and> files s' (dir @ ''/f1_result.csv'') = files s (dir @ ''/f1_result.csv'')
           \<and> files s' (dir @ ''/pred_result.csv'') = files s (dir @ ''/pred_result.csv'')
           \<and> trace s' = trace s @ [SaveBest n]"
      by simp
  qed
qed

theorem best_artifacts_policy_witness:
  "list_all (\<lambda>ep. report_covers (rslt_f1_by_class ep)) fold_epochs
   \<and> (\<exists>st. run_fold float32 ''exp'' Map.empty fold_epochs = Inr st
    \<and> (\<forall>k<length fold_epochs.
          (SaveBest k \<in> set (trace st))
             = (0 < val_f1 (fold_epochs ! k) \<and> (\<forall>j<k. val_f1 (fold_epochs ! j) < val_f1 (fold_epochs ! k)))
        \<and> (SaveF1Result k \<in> set (trace st))
             = (0 < val_f1 (fold_epochs ! k) \<and> (\<forall>j<k. val_f1 (fold_epochs ! j) < val_f1 (fold_epochs ! k)))
        \<and> (SaveBestValPred k \<in> set (trace st))
             = (0 < val_f1 (fold_epochs ! k) \<and> (\<forall>j<k. val_f1 (fold_epochs ! j) < val_f1 (fold_epochs ! k))))
    \<and> files st ''exp/best.pth'' = Some (Weights 22)
    \<and> files st ''exp/f1_result.csv'' = Some (Table (f1_table float32 report_half))
    \<and> files st ''exp/pred_result.csv'' = Some (PredTable pairs_half))
   \<and> best_f1 (fold_start Map.empty :: (nat, pyfloat) fold_state) < val_f1 epoch_two
   \<and> \<not> report_covers (rslt_f1_by_class epoch_two)
   \<and> (\<exists>key s'. validate_epoch float32 ''exp'' 0 epoch_two (fold_start Map.empty) = Inl (KeyError key, s')
         \<and> files s' ''exp/best.pth'' = Some (Weights 23)
         \<and> files s' ''exp/f1_result.csv'' = None
         \<and> files s' ''exp/pred_result.csv'' = None
         \<and> trace s' = [SaveBest 0])"
proof -
  have b: "2 < length fold_epochs" "0 < val_f1 (fold_epochs ! 2)
      \<and> (\<forall>j<2. val_f1 (fold_epochs ! j) < val_f1 (fold_epochs ! 2))
      \<and> (\<forall>j<length fold_epochs. val_f1 (fold_epochs ! j) \<le> val_f1 (fold_epochs ! 2))"
    using fold_epochs_best by (simp_all add: best_epoch_def improves_def)
  note policy = best_artifacts_policy [where eps = fold_epochs and dt = float32
      and dir = "''exp''" and fs = Map.empty and s = "fold_start Map.empty" and ep = epoch_two
      and n = 0, OF fold_epochs_covered]
  from policy [THEN conjunct1]
  obtain st where all: "run_fold float32 ''exp'' Map.empty fold_epochs = Inr st
    \<and> (\<forall>k<length fold_epochs.
          (SaveBest k \<in> set (trace st))
             = (0 < val_f1 (fold_epochs ! k) \<and> (\<forall>j<k. val_f1 (fold_epochs ! j) < val_f1 (fold_epochs ! k)))
        \<and> (SaveF1Result k \<in> set (trace st))
             = (0 < val_f1 (fold_epochs ! k) \<and> (\<forall>j<k. val_f1 (fold_epochs ! j) < val_f1 (fold_epochs ! k)))
        \<and> (SaveBestValPred k \<in> set (trace st))
             = (0 < val_f1 (fold_epochs ! k) \<and> (\<forall>j<k. val_f1 (fold_epochs ! j) < val_f1 (fold_epochs ! k))))
    \<and> (\<forall>k<length fold_epochs.
          0 < val_f1 (fold_epochs ! k) \<and> (\<forall>j<k. val_f1 (fold_epochs ! j) < val_f1 (fold_epochs ! k))
          \<and> (\<forall>j<length fold_epochs. val_f1 (fold_epochs ! j) \<le> val_f1 (fold_epochs ! k)) \<longrightarrow>
            files st (''exp'' @ ''/best.pth'') = Some (Weights (state_dict (fold_epochs ! k)))
          \<and> files st (''exp'' @ ''/f1_result.csv'')
              = Some (Table (f1_table float32 (rslt_f1_by_class (fold_epochs ! k))))
          \<and> files st (''exp'' @ ''/pred_result.csv'') = Some (PredTable (val_pairs (fold_epochs ! k))))
    \<and> ((\<forall>j<length fold_epochs. val_f1 (fold_epochs ! j) \<le> 0) \<longrightarrow>
          files st (''exp'' @ ''/best.pth'') = Map.empty (''exp'' @ ''/best.pth'')
        \<and> files st (''exp'' @ ''/f1_result.csv'') = Map.empty (''exp'' @ ''/f1_result.csv'')
        \<and> files st (''exp'' @ ''/pred_result.csv'') = Map.empty (''exp'' @ ''/pred_result.csv''))"
    ..
  note run = all [THEN conjunct1]
  note writes = all [THEN conjunct2, THEN conjunct1]
  note best = all [THEN conjunct2, THEN conjunct2, THEN conjunct1, rule_format, OF b]
  from best have "files st ''exp/best.pth'' = Some (Weights 22)
    \<and> files st ''exp/f1_result.csv'' = Some (Table (f1_table float32 report_half))
    \<and> files st ''exp/pred_result.csv'' = Some (PredTable pairs_half)"
    unfolding fold_epochs_nth by (simp add: epoch_half_def)
  with run writes have fold: "\<exists>st. run_fold float32 ''exp'' Map.empty fold_epochs = Inr st
    \<and> (\<forall>k<length fold_epochs.
          (SaveBest k \<in> set (trace st))
             = (0 < val_f1 (fold_epochs ! k) \<and> (\<forall>j<k. val_f1 (fold_epochs ! j) < val_f1 (fold_epochs ! k)))
        \<and> (SaveF1Result k \<in> set (trace st))
             = (0 < val_f1 (fold_epochs ! k) \<and> (\<forall>j<k. val_f1 (fold_epochs ! j) < val_f1 (fold_epochs ! k)))
        \<and> (SaveBestValPred k \<in> set (trace st))
             = (0 < val_f1 (fold_epochs ! k) \<and> (\<forall>j<k. val_f1 (fold_epochs ! j) < val_f1 (fold_epochs ! k))))
    \<and> files st ''exp/best.pth'' = Some (Weights 22)
    \<and> files st ''exp/f1_result.csv'' = Some (Table (f1_table float32 report_half))
    \<and> files st ''exp/pred_result.csv'' = Some (PredTable pairs_half)"
    by (intro exI [of _ st] conjI) (rule run, rule writes, simp_all)
  have h: "best_f1 (fold_start Map.empty :: (nat, pyfloat) fold_state) < val_f1 epoch_two
      \<and> \<not> report_covers (rslt_f1_by_class epoch_two)"
    using epoch_two_improves(1) [of Map.empty] epoch_two_improves(2) by (intro conjI)
  from policy [THEN conjunct2, rule_format, OF h]
  have raise: "\<exists>key s'. validate_epoch float32 ''exp'' 0 epoch_two (fold_start Map.empty)
           = Inl (KeyError key, s')
         \<and> files s' ''exp/best.pth'' = Some (Weights 23)
         \<and> files s' ''exp/f1_result.csv'' = None
         \<and> files s' ''exp/pred_result.csv'' = None
         \<and> trace s' = [SaveBest 0]"
    by (simp add: fold_start_def epoch_two_def)
  from fold_epochs_covered fold h [THEN conjunct1] h [THEN conjunct2] raise show ?thesis
    by (intro conjI)
qed




lemma validate_epoch_best_values:
  assumes "validate_epoch dt dir n ep st = Inr st'"
  shows "best_values st' = (if best_f1 st < val_f1 ep then values_of ep else best_values st)"
  using assms
  by (auto simp: validate_epoch_def Let_def best_values_def values_of_def
      split: if_splits sum.splits)

text \<open>
  Claim C9: an epoch's validation changes \<^verbatim>\<open>best_val_acc\<close> and \<^verbatim>\<open>best_val_loss\<close> only
  together with \<^verbatim>\<open>best_f1\<close>, when its F1 is strictly above \<^verbatim>\<open>best_f1\<close>, and then to the
  epoch's own accuracy and loss. So after any number of epochs of a fold the three
  values are the F1, accuracy and loss of the one epoch with the best F1 so far (the
  initial 0, 0 and \<^verbatim>\<open>np.inf\<close> when no epoch had a positive F1), whatever accuracies and
  losses the other epochs had.
\<close>

theorem best_values_follow_f1:
  assumes "validate_epoch dt dir n ep st = Inr st'"
      and "list_all (\<lambda>ep. report_covers (rslt_f1_by_class ep)) eps"
  shows "(if best_f1 st < val_f1 ep
          then best_f1 st' = val_f1 ep \<and> best_val_acc st' = val_acc ep
               \<and> best_val_loss st' = Loss (val_loss ep)
          else best_f1 st' = best_f1 st \<and> best_val_acc st' = best_val_acc st
               \<and> best_val_loss st' = best_val_loss st)
    \<and> (\<exists>s. run_fold dt dir fs eps = Inr s
         \<and> (\<forall>k<length eps.
               0 < val_f1 (eps ! k) \<and> (\<forall>j<k. val_f1 (eps ! j) < val_f1 (eps ! k))
               \<and> (\<forall>j<length eps. val_f1 (eps ! j) \<le> val_f1 (eps ! k)) \<longrightarrow>
                 best_f1 s = val_f1 (eps ! k) \<and> best_val_acc s = val_acc (eps ! k)
               \<and> best_val_loss s = Loss (val_loss (eps ! k)))
         \<and> ((\<forall>j<length eps. val_f1 (eps ! j) \<le> 0) \<longrightarrow>
               best_f1 s = 0 \<and> best_val_acc s = 0 \<and> best_val_loss s = NpInf))"
proof -
  have step: "if best_f1 st < val_f1 ep
          then best_f1 st' = val_f1 ep \<and> best_val_acc st' = val_acc ep
               \<and> best_val_loss st' = Loss (val_loss ep)
          else best_f1 st' = best_f1 st \<and> best_val_acc st' = best_val_acc st
               \<and> best_val_loss st' = best_val_loss st"
    using validate_epoch_best_values [OF assms(1)]
    by (simp add: best_values_def values_of_def split: if_splits)
  from run_fold_tracks [OF assms(2), of dt dir fs]
  obtain s where run: "run_fold dt dir fs eps = Inr s" and t: "tracks dt dir fs eps s"
    by blast
  have best: "best_f1 s = val_f1 (eps ! k) \<and> best_val_acc s = val_acc (eps ! k)
               \<and> best_val_loss s = Loss (val_loss (eps ! k))"
    if "best_epoch eps k" for k
    using tracks_best [OF t that] by (simp add: best_values_def values_of_def)
  have none: "best_f1 s = 0 \<and> best_val_acc s = 0 \<and> best_val_loss s = NpInf"
    if z: "\<forall>j<length eps. val_f1 (eps ! j) \<le> 0"
    using tracks_none [OF t z] by (simp add: best_values_def)
  have "\<exists>s. run_fold dt dir fs eps = Inr s
         \<and> (\<forall>k<length eps.
               0 < val_f1 (eps ! k) \<and> (\<forall>j<k. val_f1 (eps ! j) < val_f1 (eps ! k))
               \<and> (\<forall>j<length eps. val_f1 (eps ! j) \<le> val_f1 (eps ! k)) \<longrightarrow>
                 best_f1 s = val_f1 (eps ! k) \<and> best_val_acc s = val_acc (eps ! k)
               \<and> best_val_loss s = Loss (val_loss (eps ! k)))
         \<and> ((\<forall>j<length eps. val_f1 (eps ! j) \<le> 0) \<longrightarrow>
               best_f1 s = 0 \<and> best_val_acc s = 0 \<and> best_val_loss s = NpInf)"
    using run best none unfolding best_epoch_def improves_def by blast
  with step show ?thesis by blast
qed

lemma fold_validate:
  "validate_epoch float32 ''exp'' 0 epoch_half (fold_start Map.empty)
   = Inr \<lparr>best_val_acc = 1/2, best_val_loss = Loss 2, best_f1 = 1/2,
          files = [''exp/best.pth'' \<mapsto> Weights 22,
                   ''exp/f1_result.csv'' \<mapsto> Table (f1_table float32 report_half),
                   ''exp/pred_result.csv'' \<mapsto> PredTable pairs_half,
                   ''exp/last.pth'' \<mapsto> Weights 22],
          trace = [SaveBest 0, SaveF1Result 0, SaveBestValPred 0, SaveLast 0]\<rparr>"
proof -
  have "best_f1 (fold_start Map.empty :: (nat, pyfloat) fold_state) < val_f1 epoch_half"
      "report_covers (rslt_f1_by_class epoch_half)"
    by (simp_all add: fold_start_def epoch_half_def reports_cover)
  from validate_epoch_better [OF this, of float32 "''exp''" 0] show ?thesis
    by (simp add: fold_start_def epoch_half_def epoch_events_def)
qed

theorem best_values_follow_f1_witness:
  "validate_epoch float32 ''exp'' 0 epoch_half (fold_start Map.empty)
   = Inr \<lparr>best_val_acc = 1/2, best_val_loss = Loss 2, best_f1 = 1/2,
          files = [''exp/best.pth'' \<mapsto> Weights 22,
                   ''exp/f1_result.csv'' \<mapsto> Table (f1_table float32 report_half),
                   ''exp/pred_result.csv'' \<mapsto> PredTable pairs_half,
                   ''exp/last.pth'' \<mapsto> Weights 22],
          trace = [SaveBest 0, SaveF1Result 0, SaveBestValPred 0, SaveLast 0]\<rparr>
   \<and> list_all (\<lambda>ep. report_covers (rslt_f1_by_class ep)) fold_epochs
   \<and> (\<exists>s. run_fold float32 ''exp'' Map.empty fold_epochs = Inr s
         \<and> best_f1 s = 1/2 \<and> best_val_acc s = 1/2 \<and> best_val_loss s = Loss 2
         \<and> best_val_acc s < val_acc (fold_epochs ! 1)
         \<and> val_loss (fold_epochs ! 1) < 2)"
proof -
  have b: "2 < length fold_epochs \<and> 0 < val_f1 (fold_epochs ! 2)
      \<and> (\<forall>j<2. val_f1 (fold_epochs ! j) < val_f1 (fold_epochs ! 2))
      \<and> (\<forall>j<length fold_epochs. val_f1 (fold_epochs ! j) \<le> val_f1 (fold_epochs ! 2))"
    using fold_epochs_best by (simp add: best_epoch_def improves_def)
  from best_values_follow_f1 [OF fold_validate fold_epochs_covered, of Map.empty]
  obtain s where s: "run_fold float32 ''exp'' Map.empty fold_epochs = Inr s"
    and f: "\<forall>k<length fold_epochs.
               0 < val_f1 (fold_epochs ! k) \<and> (\<forall>j<k. val_f1 (fold_epochs ! j) < val_f1 (fold_epochs ! k))
               \<and> (\<forall>j<length fold_epochs. val_f1 (fold_epochs ! j) \<le> val_f1 (fold_epochs ! k)) \<longrightarrow>
                 best_f1 s = val_f1 (fold_epochs ! k) \<and> best_val_acc s = val_acc (fold_epochs ! k)
               \<and> best_val_loss s = Loss (val_loss (fold_epochs ! k))"
    by blast
  from f b have "best_f1 s = val_f1 (fold_epochs ! 2) \<and> best_val_acc s = val_acc (fold_epochs ! 2)
               \<and> best_val_loss s = Loss (val_loss (fold_epochs ! 2))"
    by blast
  then have "best_f1 s = 1/2 \<and> best_val_acc s = 1/2 \<and> best_val_loss s = Loss 2
         \<and> best_val_acc s < val_acc (fold_epochs ! 1) \<and> val_loss (fold_epochs ! 1) < 2"
    unfolding fold_epochs_nth by (simp add: epoch_half_def epoch_skew_def)
  with s fold_validate fold_epochs_covered show ?thesis by blast
qed


section \<open>Properties of the training loop's log\<close>

lemma train_batches_snoc:
  "train_batches args idx (bs @ [b]) st =
     (case train_batches args idx bs st of
        Inl e \<Rightarrow> Inl e
      | Inr st' \<Rightarrow> train_batch args (idx + length bs) b st')"
  by (induction bs arbitrary: idx st) (auto split: sum.splits)

lemma log_condition:
  assumes "0 < li"
  shows "((int idx + 1) mod li = 0) = (Suc idx mod nat li = 0)"
proof -
  have "int (Suc idx mod nat li) = int (Suc idx) mod int (nat li)"
    by (rule zmod_int)
  also have "\<dots> = (int idx + 1) mod li"
    using assms by (simp add: add.commute)
  finally show ?thesis
    by (metis of_nat_0_eq_iff)
qed

lemma multiple_ge: "Suc s mod n = 0 \<Longrightarrow> n \<le> Suc s"
  by (auto simp: mod_eq_0_iff_dvd dest: dvd_imp_le)

lemma window_append:
  assumes "Suc s \<le> length bs" and "n \<le> Suc s"
  shows "window n s (bs @ cs) = window n s bs"
  using assms by (simp add: window_def)

lemma window_last:
  assumes "n \<le> Suc (length bs)" and "0 < n"
  shows "window n (length bs) (bs @ [b]) = drop (Suc (length bs) - n) bs @ [b]"
  using assms by (simp add: window_def)

lemma log_steps_bound:
  assumes "map step es = filter (\<lambda>idx. Suc idx mod n = 0) [0..<m]" and "e \<in> set es" and "0 < n"
  shows "Suc (step e) \<le> m \<and> n \<le> Suc (step e)"
proof -
  from assms(2) have "step e \<in> set (map step es)" by simp
  with assms(1) have "step e < m" and z: "Suc (step e) mod n = 0" by auto
  then show ?thesis
    using multiple_ge [OF z] by simp
qed

lemma log_consistent_start:
  "log_consistent args [] \<lparr>loss_value = 0, matches = 0, logged = []\<rparr>"
  by (simp add: log_consistent_def)

lemma log_consistent_step:
  assumes li: "0 < log_interval args" and bsz: "batch_size args \<noteq> 0"
      and inv: "log_consistent args bs st"
  shows "\<exists>st'. train_batch args (length bs) b st = Inr st' \<and> log_consistent args (bs @ [b]) st'"
proof -
  define n where "n = nat (log_interval args)"
  define m where "m = length bs"
  have n: "0 < n" "real_of_int (log_interval args) = real n" "log_interval args \<noteq> 0"
    using li by (simp_all add: n_def)
  from inv have steps: "map step (logged st) = filter (\<lambda>idx. Suc idx mod n = 0) [0..<m]"
    and avgs: "\<forall>e\<in>set (logged st).
            train_loss e = sum_list (map loss_item (window n (step e) bs)) / real n
          \<and> train_acc e = real (sum_list (map correct (window n (step e) bs)))
                             / real_of_int (batch_size args) / real n"
    and lv: "loss_value st = sum_list (map loss_item (drop (m - m mod n) bs))"
    and mt: "matches st = sum_list (map correct (drop (m - m mod n) bs))"
    unfolding log_consistent_def Let_def n_def [symmetric] m_def [symmetric] n(2) list_all_iff
    by simp_all
  have old: "window n (step e) (bs @ [b]) = window n (step e) bs" if "e \<in> set (logged st)" for e
    using log_steps_bound [OF steps that n(1)] by (intro window_append) (simp_all add: m_def)
  have cond: "((int (length bs) + 1) mod log_interval args = 0) = (Suc m mod n = 0)"
    using log_condition [OF li, of "length bs"] by (simp add: n_def m_def)
  show ?thesis
  proof (cases "Suc m mod n = 0")
    case True
    then have nle: "n \<le> Suc m"
      by (rule multiple_ge)
    from True have mm: "m mod n = n - 1"
      using n(1) by (metis mod_Suc diff_Suc_1 nat.simps(3))
    have dr: "m - m mod n = Suc m - n"
      using nle n(1) unfolding mm by simp
    have w: "window n m (bs @ [b]) = drop (Suc m - n) bs @ [b]"
      using window_last [of n bs b] nle n(1) by (simp add: m_def)
    define entry where "entry = \<lparr>step = m,
        train_loss = (loss_value st + loss_item b) / real n,
        train_acc = real (matches st + correct b) / real_of_int (batch_size args) / real n\<rparr>"
    define st' where "st' = \<lparr>loss_value = 0, matches = 0, logged = logged st @ [entry]\<rparr>"
    have run: "train_batch args (length bs) b st = Inr st'"
      using True cond bsz n(3)
      by (simp add: train_batch_def Let_def st'_def entry_def n(2) m_def)
    have "map step (logged st') = filter (\<lambda>idx. Suc idx mod n = 0) [0..<length (bs @ [b])]"
      using True steps by (simp add: st'_def entry_def m_def)
    moreover have "train_loss entry = sum_list (map loss_item (window n (step entry) (bs @ [b]))) / real n
          \<and> train_acc entry = real (sum_list (map correct (window n (step entry) (bs @ [b]))))
                             / real_of_int (batch_size args) / real n"
      by (simp add: entry_def w lv mt dr)
    moreover have "length (bs @ [b]) - length (bs @ [b]) mod n = Suc m"
      using True by (simp add: m_def)
    ultimately have "log_consistent args (bs @ [b]) st'"
      unfolding log_consistent_def Let_def n_def [symmetric] n(2) list_all_iff
      using avgs old by (auto simp: st'_def m_def)
    with run show ?thesis by blast
  next
    case False
    then have ms: "Suc m mod n = Suc (m mod n)"
      by (simp add: mod_Suc split: if_splits)
    have dr: "Suc m - Suc m mod n = m - m mod n"
      unfolding ms by simp
    have le: "m - m mod n \<le> length bs"
      by (simp add: m_def)
    define st' where "st' = st\<lparr>loss_value := loss_value st + loss_item b,
                   matches := matches st + correct b\<rparr>"
    have run: "train_batch args (length bs) b st = Inr st'"
      using False cond n(3) by (simp add: train_batch_def Let_def st'_def)
    have "map step (logged st') = filter (\<lambda>idx. Suc idx mod n = 0) [0..<length (bs @ [b])]"
      using False steps by (simp add: st'_def m_def)
    moreover have "length (bs @ [b]) - length (bs @ [b]) mod n = m - m mod n"
      using dr by (simp add: m_def)
    moreover have "loss_value st' = sum_list (map loss_item (drop (m - m mod n) (bs @ [b])))"
      using le by (simp add: st'_def lv)
    moreover have "matches st' = sum_list (map correct (drop (m - m mod n) (bs @ [b])))"
      using le by (simp add: st'_def mt)
    ultimately have "log_consistent args (bs @ [b]) st'"
      unfolding log_consistent_def Let_def n_def [symmetric] n(2) list_all_iff
      using avgs old by (auto simp: st'_def)
    with run show ?thesis by blast
  qed
qed

lemma train_epoch_consistent:
  assumes "0 < log_interval args" and "batch_size args \<noteq> 0"
  shows "\<exists>st. train_epoch args bs = Inr st \<and> log_consistent args bs st"
proof (induction bs rule: rev_induct)
  case Nil
  show ?case by (simp add: train_epoch_def log_consistent_start)
next
  case (snoc b bs)
  then obtain st where st: "train_epoch args bs = Inr st" "log_consistent args bs st"
    by blast
  from log_consistent_step [OF assms st(2), of b] st(1) show ?case
    by (simp add: train_epoch_def train_batches_snoc)
qed

lemma demo_train_epoch:
  "train_epoch demo_args demo_batches =
     Inr \<lparr>loss_value = 5, matches = 0,
          logged = [\<lparr>step = 1, train_loss = 2, train_acc = 1/2\<rparr>,
                    \<lparr>step = 3, train_loss = 3, train_acc = 3/4\<rparr>]\<rparr>"
  by (simp add: train_epoch_def train_batch_def demo_args_def demo_batches_def Let_def)

text \<open>
  Claim C7: with a positive log interval (and a batch size that is not 0, which the
  accuracy is divided by), the training loop of an epoch logs at the batch indices
  \<open>idx\<close> for which the number \<open>idx + 1\<close> of processed batches is a multiple of the interval,
  and at no other; the logged loss and accuracy are the sums over the batches since
  the previous log only (the window of as many batches as the interval that ends at
  \<open>idx\<close>), divided as the code divides them; the running sums are the sums over the
  batches after the last log, so they are zero right after a log.
\<close>

theorem log_every_interval:
  assumes "0 < log_interval args" and "batch_size args \<noteq> 0"
  shows "\<exists>st. train_epoch args bs = Inr st
    \<and> map step (logged st)
         = filter (\<lambda>idx. (int idx + 1) mod log_interval args = 0) [0..<length bs]
    \<and> list_all (\<lambda>e.
          train_loss e
            = sum_list (map loss_item (window (nat (log_interval args)) (step e) bs))
                / real_of_int (log_interval args)
        \<and> train_acc e
            = real (sum_list (map correct (window (nat (log_interval args)) (step e) bs)))
                / real_of_int (batch_size args) / real_of_int (log_interval args))
        (logged st)
    \<and> loss_value st
         = sum_list (map loss_item (drop (length bs - length bs mod nat (log_interval args)) bs))
    \<and> matches st
         = sum_list (map correct (drop (length bs - length bs mod nat (log_interval args)) bs))
    \<and> (if length bs mod nat (log_interval args) = 0 then loss_value st = 0 \<and> matches st = 0
        else True)"
proof -
  from train_epoch_consistent [OF assms, of bs]
  obtain st where run: "train_epoch args bs = Inr st" and c: "log_consistent args bs st"
    by blast
  have f: "filter (\<lambda>idx. Suc idx mod nat (log_interval args) = 0) [0..<length bs]
         = filter (\<lambda>idx. (int idx + 1) mod log_interval args = 0) [0..<length bs]"
    by (rule filter_cong) (simp_all add: log_condition [OF assms(1)])
  from c have steps: "map step (logged st)
         = filter (\<lambda>idx. (int idx + 1) mod log_interval args = 0) [0..<length bs]"
    unfolding log_consistent_def Let_def f by simp
  from c have avgs: "list_all (\<lambda>e.
          train_loss e
            = sum_list (map loss_item (window (nat (log_interval args)) (step e) bs))
                / real_of_int (log_interval args)
        \<and> train_acc e
            = real (sum_list (map correct (window (nat (log_interval args)) (step e) bs)))
                / real_of_int (batch_size args) / real_of_int (log_interval args))
        (logged st)"
    unfolding log_consistent_def Let_def by simp
  from c have lv: "loss_value st
         = sum_list (map loss_item (drop (length bs - length bs mod nat (log_interval args)) bs))"
    and mt: "matches st
         = sum_list (map correct (drop (length bs - length bs mod nat (log_interval args)) bs))"
    unfolding log_consistent_def Let_def by simp_all
  have "if length bs mod nat (log_interval args) = 0 then loss_value st = 0 \<and> matches st = 0
        else True"
    using lv mt by simp
  with run steps avgs lv mt show ?thesis by blast
qed

theorem log_every_interval_witness:
  "0 < log_interval demo_args \<and> batch_size demo_args \<noteq> 0
   \<and> (\<exists>st. train_epoch demo_args demo_batches = Inr st
        \<and> map step (logged st) = [1, 3]
        \<and> map train_loss (logged st) = [2, 3]
        \<and> map train_acc (logged st) = [1/2, 3/4]
        \<and> loss_value st = 5 \<and> matches st = 0)"
proof -
  have h1: "0 < log_interval demo_args" and h2: "batch_size demo_args \<noteq> 0"
    by (simp_all add: demo_args_def)
  from log_every_interval [OF h1 h2, of demo_batches]
  obtain st where st: "train_epoch demo_args demo_batches = Inr st"
    by blast
  with demo_train_epoch
  have "st = \<lparr>loss_value = 5, matches = 0,
          logged = [\<lparr>step = 1, train_loss = 2, train_acc = 1/2\<rparr>,
                    \<lparr>step = 3, train_loss = 3, train_acc = 3/4\<rparr>]\<rparr>"
    by simp
  then have "map step (logged st) = [1, 3] \<and> map train_loss (logged st) = [2, 3]
        \<and> map train_acc (logged st) = [1/2, 3/4] \<and> loss_value st = 5 \<and> matches st = 0"
    by simp
  with st have "\<exists>st. train_epoch demo_args demo_batches = Inr st
        \<and> map step (logged st) = [1, 3]
        \<and> map train_loss (logged st) = [2, 3]
        \<and> map train_acc (logged st) = [1/2, 3/4]
        \<and> loss_value st = 5 \<and> matches st = 0"
    by (intro exI [of _ st] conjI) simp_all
  with h1 h2 show ?thesis by (intro conjI)
qed


section \<open>Properties of the path incrementer\<close>

lemma increment_path_unchanged:
  "\<not> path_exists fs path \<or> exist_ok \<Longrightarrow> increment_path fs path exist_ok = path"
  by (auto simp: increment_path_def)

lemma takeWhile_all: "list_all P xs \<Longrightarrow> takeWhile P xs = xs"
  by (induction xs) auto

lemma match_at_end:
  assumes "list_all is_digit ds" and "ds \<noteq> []"
  shows "match_at s (s @ ds) = Some ds"
  using assms by (simp add: match_at_def takeWhile_all)

lemma match_at_inside:
  assumes "match_at s p = None" and "length s < length p"
  shows "match_at s (p @ t) = None"
proof (cases "prefix s (p @ t)")
  case True
  with assms(2) have ps: "prefix s p"
    by (auto simp: prefix_append dest: prefix_length_le)
  from assms(2) obtain c r where r: "drop (length s) p = c # r"
    by (cases "drop (length s) p") auto
  from assms(1) ps have "takeWhile is_digit (drop (length s) p) = []"
    by (simp add: match_at_def Let_def split: if_splits)
  with r have "\<not> is_digit c"
    by (auto split: if_splits)
  with r assms(2) show ?thesis
    by (simp add: match_at_def)
next
  case False
  then show ?thesis by (simp add: match_at_def)
qed

lemma search_from_suffix:
  assumes "search_from s p = None" and "suffix s p" and "list_all is_digit ds" and "ds \<noteq> []"
  shows "search_from s (p @ ds) = Some ds"
  using assms(1,2)
proof (induction p)
  case Nil
  then have s: "s = []" by simp
  from assms(4) obtain c r where ds: "ds = c # r" by (cases ds) auto
  have "match_at [] (c # r) = Some (c # r)"
    using match_at_end [OF assms(3,4), of "[]"] ds by simp
  then show ?case by (simp add: s ds)
next
  case (Cons c p)
  from Cons.prems(1) have m: "match_at s (c # p) = None" and r: "search_from s p = None"
    by (auto split: option.splits)
  from Cons.prems(2) consider "s = c # p" | "suffix s p"
    by (auto simp: suffix_Cons)
  then show ?case
  proof cases
    case 1
    with match_at_end [OF assms(3,4), of s] show ?thesis by simp
  next
    case 2
    then have "length s \<le> length p" by (rule suffix_length_le)
    then have "match_at s ((c # p) @ ds) = None"
      by (intro match_at_inside [OF m]) simp
    with Cons.IH [OF r 2] show ?thesis by simp
  qed
qed

lemma is_digit_ascii: "is_digit c \<Longrightarrow> of_char c < (128 :: nat)"
  by (auto simp: is_digit_def)

lemma ascii_str_nat: "ascii (str_nat n)"
  using str_nat_digits [of n] unfolding ascii_def list_all_iff
  by (auto dest: is_digit_ascii)

lemma ascii_append: "ascii (xs @ ys) = (ascii xs \<and> ascii ys)"
  by (simp add: ascii_def)

lemma re_search_suffix:
  assumes "plain_regex s" and "ascii p"
      and "re_search s p = None" and "suffix s p" and "list_all is_digit ds" and "ds \<noteq> []"
  shows "re_search s (p @ ds) = Some ds"
proof -
  from assms(5) have "ascii ds"
    unfolding ascii_def list_all_iff by (auto dest: is_digit_ascii)
  with assms(1,2) have d: "re_search s (p @ ds) = search_from s (p @ ds)"
    by (simp add: re_search_def ascii_append)
  from assms(1,2,3) have "search_from s p = None"
    by (simp add: re_search_def)
  from search_from_suffix [OF this assms(4,5,6)] d show ?thesis by simp
qed

lemma max_list_Max: "xs \<noteq> [] \<Longrightarrow> max_list xs = Max (set xs)"
proof (induction xs)
  case Nil
  then show ?case by simp
next
  case (Cons x xs)
  then show ?case
    by (cases "xs = []") simp_all
qed

lemma set_matched: "set [f g. Some g \<leftarrow> ms] = {f g | g. Some g \<in> set ms}"
proof (induction ms)
  case Nil
  then show ?case by simp
next
  case (Cons m ms)
  show ?case
  proof (cases m)
    case None
    with Cons show ?thesis by simp
  next
    case (Some a)
    with Cons show ?thesis by auto
  qed
qed

lemma found_suffixes:
  assumes "plain_regex (stem path)" and "ascii path"
      and "re_search (stem path) path = None" and "suffix (stem path) path"
      and "set dirs = insert path ((\<lambda>j. path @ str_nat j) ` J)"
  shows "set [int_of_digits g. Some g \<leftarrow> map (re_search (stem path)) dirs] = J"
proof -
  have s: "re_search (stem path) (path @ str_nat j) = Some (str_nat j)" for j
    using re_search_suffix [OF assms(1,2,3,4), of "str_nat j"] str_nat_digits [of j] by simp
  have "set (map (re_search (stem path)) dirs) = insert None ((\<lambda>j. Some (str_nat j)) ` J)"
    by (simp add: assms(5) assms(3) image_image s)
  then have "set [int_of_digits g. Some g \<leftarrow> map (re_search (stem path)) dirs]
      = {int_of_digits g | g. g \<in> str_nat ` J}"
    unfolding set_matched by auto
  also have "\<dots> = (\<lambda>j. int_of_digits (str_nat j)) ` J"
    by blast
  also have "\<dots> = J"
    by (simp add: int_of_digits_str_nat)
  finally show ?thesis .
qed

text \<open>
  Where the path incrementer does what its docstring says: for a base path that exists,
  has no pattern character of \<^verbatim>\<open>glob\<close>, a stem with no special character of regular
  expressions, ASCII characters only, no place where its stem is followed by a digit
  and a name that ends with its stem (no suffix is dropped), and whose globbed
  siblings are itself and itself followed by the numbers of \<open>J\<close>, the path returned is the
  base path followed by the largest number of \<open>J\<close> plus one, or by 2 when \<open>J\<close> is empty.
\<close>

lemma increment_path_numbered:
  assumes "path_exists fs path"
      and "plain_glob path" and "plain_regex (stem path)" and "ascii path"
      and "re_search (stem path) path = None" and "suffix (stem path) path"
      and "set (glob_star fs path) = insert path ((\<lambda>j. path @ str_nat j) ` J)"
      and "finite J"
  shows "increment_path fs path False = path @ str_nat (if J = {} then 2 else Max J + 1)"
proof -
  define i where "i = [int_of_digits g. Some g \<leftarrow> map (re_search (stem path)) (glob_star fs path)]"
  have i: "set i = J"
    unfolding i_def by (rule found_suffixes [OF assms(3,4,5,6,7)])
  have r: "increment_path fs path False = path @ str_nat (if i \<noteq> [] then max_list i + 1 else 2)"
    using assms(1) unfolding i_def increment_path_def Let_def by (simp only: simp_thms if_False)
  show ?thesis
  proof (cases "J = {}")
    case True
    with i have "i = []" by simp
    with r True show ?thesis by simp
  next
    case False
    with i have ne: "i \<noteq> []" by auto
    from max_list_Max [OF ne] i have "max_list i = Max J" by simp
    with r ne False show ?thesis by simp
  qed
qed

lemma increment_path_siblings:
  assumes "path_exists fs path"
      and "plain_glob path" and "plain_regex (stem path)" and "ascii path"
      and "re_search (stem path) path = None" and "suffix (stem path) path"
      and "set (glob_star fs path) = insert path ((\<lambda>j. path @ str_nat j) ` {0..k})"
  shows "increment_path fs path False = path @ str_nat (k + 1)"
proof -
  have "Max {0..k} = k"
    by (rule Max_eqI) auto
  with increment_path_numbered [OF assms] show ?thesis by simp
qed

lemma increment_path_siblings_example:
  "increment_path demo_fs2 ''model/ensem'' False = ''model/ensem4''"
proof -
  have pg: "plain_glob ''model/ensem''"
    by (simp add: plain_glob_def)
  have st: "stem ''model/ensem'' = ''ensem''"
    by (simp add: stem_def path_name_def)
  have pr: "plain_regex (stem ''model/ensem'')"
    unfolding st by (simp add: plain_regex_def)
  have as: "ascii ''model/ensem''"
    by (simp add: ascii_def)
  have g: "glob_star demo_fs2 ''model/ensem'' =
      [''model/ensem'', ''model/ensem0'', ''model/ensem1'', ''model/ensem2'', ''model/ensem3'']"
    by (simp add: glob_star_def pg demo_fs2_def)
  have j: "{0..3::nat} = {0, 1, 2, 3}"
    by auto
  have d: "str_nat 0 = ''0''" "str_nat 1 = ''1''" "str_nat 2 = ''2''" "str_nat 3 = ''3''"
      "str_nat 4 = ''4''"
    by (simp_all add: str_nat.simps digit_char_def)
  have sib: "set (glob_star demo_fs2 ''model/ensem'')
      = insert ''model/ensem'' ((\<lambda>j. ''model/ensem'' @ str_nat j) ` {0..3})"
    unfolding g j by (simp add: d d(2) [unfolded One_nat_def])
  have ex: "path_exists demo_fs2 ''model/ensem''"
    by (simp add: path_exists_def demo_fs2_def)
  have no: "re_search (stem ''model/ensem'') ''model/ensem'' = None"
    unfolding st using pr [unfolded st] as by (simp add: re_search_def match_at_def)
  have "''model/ensem'' = ''model/'' @ ''ensem''"
    by simp
  then have su: "suffix (stem ''model/ensem'') ''model/ensem''"
    unfolding st by (rule suffixI)
  from increment_path_siblings [OF ex pg pr as no su sib] show ?thesis
    by (simp add: d)
qed

lemma demo_stem: "stem ''ensem1/ensem'' = ''ensem''"
  by (simp add: stem_def path_name_def)

lemma demo_plain: "plain_glob ''ensem1/ensem''" "plain_regex ''ensem''"
  by (simp_all add: plain_glob_def plain_regex_def)

lemma demo_glob:
  "glob_star demo_fs ''ensem1/ensem'' =
     [''ensem1/ensem'', ''ensem1/ensem0'', ''ensem1/ensem1'', ''ensem1/ensem2'', ''ensem1/ensem3'']"
  by (simp add: glob_star_def demo_plain demo_fs_def)

lemma demo_search:
  "re_search ''ensem'' ''ensem1/ensem'' = Some ''1''"
  "re_search ''ensem'' ''ensem1/ensem0'' = Some ''1''"
  "re_search ''ensem'' ''ensem1/ensem1'' = Some ''1''"
  "re_search ''ensem'' ''ensem1/ensem2'' = Some ''1''"
  "re_search ''ensem'' ''ensem1/ensem3'' = Some ''1''"
  by (simp_all add: re_search_def demo_plain ascii_def match_at_def is_digit_def)

text \<open>
  Claim C1, at the base path \<^verbatim>\<open>ensem1/ensem\<close>, which exists and has the siblings with the
  suffixes 0 to 3: the search for the stem followed by digits finds, in each of the
  path names, the \<^verbatim>\<open>ensem1\<close> of the directory first; every suffix found is 1, and the
  path returned has the suffix 2, not 4. It is the name of a directory that exists.
\<close>

theorem increment_path_directory_digits:
  "path_exists demo_fs ''ensem1/ensem''
   \<and> glob_star demo_fs ''ensem1/ensem'' =
       [''ensem1/ensem'', ''ensem1/ensem0'', ''ensem1/ensem1'', ''ensem1/ensem2'', ''ensem1/ensem3'']
   \<and> increment_path demo_fs ''ensem1/ensem'' False = ''ensem1/ensem2''
   \<and> path_exists demo_fs (increment_path demo_fs ''ensem1/ensem'' False)"
proof -
  have e: "path_exists demo_fs ''ensem1/ensem''"
    by (simp add: path_exists_def demo_fs_def)
  have i: "int_of_digits ''1'' = 1"
    by (simp add: int_of_digits_def digit_val_def)
  have s: "str_nat (Suc (Suc 0)) = ''2''"
    by (simp add: str_nat.simps digit_char_def)
  have r: "increment_path demo_fs ''ensem1/ensem'' False = ''ensem1/ensem2''"
    by (simp add: increment_path_def e demo_stem demo_glob demo_search Let_def i s)
  moreover have "path_exists demo_fs ''ensem1/ensem2''"
    by (simp add: path_exists_def demo_fs_def)
  ultimately show ?thesis using e demo_glob by simp
qed


end
